theory Spec2Isabelle
  imports Complex_Main "HOL-Library.AList" "HOL-Library.Char_ord" "HOL-Library.List_Lexorder"
begin

section \<open>Strings and paths\<close>

text \<open>
  Python's \<open>str.lower()\<close> on the ASCII letters; every other character is left as it is.
  This is \<open>str.lower()\<close> exactly on ASCII text, and it decides membership in the sets of
  extensions (which are ASCII) as \<open>str.lower()\<close> does. On a file name with other letters
  \<open>str.lower()\<close> follows the Unicode tables, which are not modelled: the place such a name
  takes in a sorted scan is not claimed anywhere below.
\<close>

definition lower_char :: "char \<Rightarrow> char" where
  "lower_char c =
     (case map_of (zip ''ABCDEFGHIJKLMNOPQRSTUVWXYZ'' ''abcdefghijklmnopqrstuvwxyz'') c of
        Some l \<Rightarrow> l
      | None \<Rightarrow> c)"

definition lower :: "string \<Rightarrow> string" where
  "lower s = map lower_char s"

text \<open>
  The components \<open>pathlib\<close> computes from a path written with \<open>/\<close>: \<open>name\<close> is the last
  component; \<open>suffix\<close> starts at the last dot of the name, when that dot is neither the first
  nor the last character of the name, and is empty otherwise; \<open>stem\<close> is the name without
  the suffix.
\<close>

definition path_name :: "string \<Rightarrow> string" where
  "path_name p = rev (takeWhile (\<lambda>c. c \<noteq> CHR ''/'') (rev p))"

definition after_last_dot :: "string \<Rightarrow> string" where
  "after_last_dot n = rev (takeWhile (\<lambda>c. c \<noteq> CHR ''.'') (rev n))"

definition has_suffix :: "string \<Rightarrow> bool" where
  "has_suffix n \<longleftrightarrow> after_last_dot n \<noteq> [] \<and> length (after_last_dot n) + 1 < length n"

definition path_suffix :: "string \<Rightarrow> string" where
  "path_suffix p =
     (let n = path_name p in if has_suffix n then CHR ''.'' # after_last_dot n else [])"

definition path_stem :: "string \<Rightarrow> string" where
  "path_stem p =
     (let n = path_name p
      in if has_suffix n then take (length n - length (after_last_dot n) - 1) n else n)"

text \<open>\<open>Path.absolute()\<close>: an absolute path is returned as it is, a relative one is joined to
  the working directory.\<close>

definition absolute :: "string \<Rightarrow> string \<Rightarrow> string" where
  "absolute cwd p = (case p of CHR ''/'' # _ \<Rightarrow> p | _ \<Rightarrow> cwd @ ''/'' @ p)"

section \<open>The catalog: descriptors and the directory tree\<close>

text \<open>
  The JSON descriptor as the code reads it. Every key the code tests for (\<open>'tracks' in
  descriptor\<close>, \<open>track_info.get('order', 999)\<close>, \<open>'display_name' in track_info\<close>) is
  optional. The tracks of a descriptor are an association list: a Python dictionary keeps
  insertion order, and both the sort of \<open>get_playlist_tracks\<close> (which is stable) and the
  text \<open>json.dump\<close> writes depend on it. Keys other than the ones below are not modelled.
\<close>

record track_info =
  ti_display_name :: "string option"
  ti_order :: "int option"
  ti_added :: "string option"
  ti_modified :: "string option"

record descriptor =
  d_display_name :: "string option"
  d_description :: "string option"
  d_created :: "string option"
  d_modified :: "string option"
  d_tracks :: "(string \<times> track_info) list option"

text \<open>The truth value of a dictionary in a condition: true unless it is empty.\<close>

definition truthy :: "descriptor \<Rightarrow> bool" where
  "truthy d \<longleftrightarrow> d_display_name d \<noteq> None \<or> d_description d \<noteq> None \<or> d_created d \<noteq> None
     \<or> d_modified d \<noteq> None \<or> d_tracks d \<noteq> None"

text \<open>
  A file holds either the text \<open>json.dump\<close> writes for a descriptor (\<open>json.load\<close> gives the
  descriptor back), or any other text, on which \<open>json.load\<close> raises. A collection directory
  is the list of everything below it, by relative path, in the order \<open>rglob('*')\<close> yields
  it. The playlists directory is the list of its children, in the order of \<open>iterdir()\<close>.
  \<open>writable\<close> says whether opening a file for writing succeeds.
\<close>

datatype content = Json descriptor | Other string

datatype node = File content | Dir

datatype item = Folder "(string \<times> node) list" | PlainFile

record playlist_manager =
  cwd :: string
  playlists_dir :: string
  children :: "(string \<times> item) list"
  writable :: bool

definition descriptor_filename :: string where
  "descriptor_filename = ''playlist.json''"

definition audio_extensions :: "string set" where
  "audio_extensions = {''.mp3'', ''.wav'', ''.flac'', ''.ogg'', ''.wma'', ''.aiff'', ''.agg''}"

text \<open>What lies below a path of the playlists directory: nothing, when the path does not
  exist or is a plain file.\<close>

definition entries :: "item option \<Rightarrow> (string \<times> node) list" where
  "entries playlist_dir = (case playlist_dir of Some (Folder f) \<Rightarrow> f | _ \<Rightarrow> [])"

definition path_exists :: "item option \<Rightarrow> string \<Rightarrow> bool" where
  "path_exists playlist_dir relative_path \<longleftrightarrow> map_of (entries playlist_dir) relative_path \<noteq> None"

definition is_file :: "node \<Rightarrow> bool" where
  "is_file n = (case n of File _ \<Rightarrow> True | Dir \<Rightarrow> False)"

text \<open>\<open>_get_audio_files\<close>: the regular files with an audio extension (compared in lower
  case), sorted by lower-case file name; the sort is stable. Which files are found does not
  depend on the sort; their sequence is the code's for ASCII file names.\<close>

definition get_audio_files :: "item option \<Rightarrow> string list" where
  "get_audio_files directory =
     sort_key (\<lambda>p. lower (path_name p))
       (map fst (filter (\<lambda>(p, n). is_file n \<and> lower (path_suffix p) \<in> audio_extensions)
          (entries directory)))"

text \<open>\<open>_load_descriptor\<close>: \<open>None\<close> when the descriptor file does not exist, and when opening
  or parsing it raises (the exception is caught and printed).\<close>

definition load_descriptor :: "item option \<Rightarrow> descriptor option" where
  "load_descriptor playlist_dir =
     (case map_of (entries playlist_dir) descriptor_filename of
        None \<Rightarrow> None
      | Some Dir \<Rightarrow> None
      | Some (File (Other _)) \<Rightarrow> None
      | Some (File (Json d)) \<Rightarrow> Some d)"

text \<open>\<open>track_info.get('order', 999)\<close>.\<close>

definition get_order :: "track_info \<Rightarrow> int" where
  "get_order ti = (case ti_order ti of Some n \<Rightarrow> n | None \<Rightarrow> 999)"

text \<open>
  \<open>get_playlist_tracks\<close>. A track's path \<open>playlist_dir / relative_path\<close> is represented by
  its relative path. The method writes nothing; like every method of the catalog it is
  modelled as returning its result together with the state it leaves.
\<close>

definition get_playlist_tracks :: "playlist_manager \<Rightarrow> string \<Rightarrow> string list \<times> playlist_manager" where
  "get_playlist_tracks s playlist_name =
     (let playlist_dir = map_of (children s) playlist_name
      in if playlist_dir = None then ([], s)
         else (case load_descriptor playlist_dir of
                 None \<Rightarrow> (get_audio_files playlist_dir, s)
               | Some d \<Rightarrow>
                   (case d_tracks d of
                      None \<Rightarrow> (get_audio_files playlist_dir, s)
                    | Some trs \<Rightarrow>
                        (let track_entries =
                               map (\<lambda>(relative_path, ti). (get_order ti, relative_path))
                                 (filter (\<lambda>(relative_path, ti). path_exists playlist_dir relative_path) trs)
                         in (map snd (sort_key fst track_entries), s)))))"

text \<open>\<open>get_track_display_name\<close>: the descriptor's name for the track, else the file's stem.\<close>

definition get_track_display_name :: "playlist_manager \<Rightarrow> string \<Rightarrow> string \<Rightarrow> string" where
  "get_track_display_name s playlist_name track_path =
     (let playlist_dir = map_of (children s) playlist_name
      in case load_descriptor playlist_dir of
           None \<Rightarrow> path_stem track_path
         | Some d \<Rightarrow>
             (case d_tracks d of
                None \<Rightarrow> path_stem track_path
              | Some trs \<Rightarrow>
                  (case map_of trs track_path of
                     None \<Rightarrow> path_stem track_path
                   | Some ti \<Rightarrow>
                       (case ti_display_name ti of
                          Some n \<Rightarrow> n
                        | None \<Rightarrow> path_stem track_path))))"

text \<open>
  \<open>open(path, 'w')\<close> followed by the write, for a file directly below a collection
  directory: the file is created, or replaced where it is. Opening fails (\<open>None\<close>) when the
  directory is missing or is a plain file, when the path is a directory, and when the
  file system refuses the write.
\<close>

definition write_file :: "playlist_manager \<Rightarrow> string \<Rightarrow> string \<Rightarrow> content \<Rightarrow> playlist_manager option" where
  "write_file s playlist_name filename c =
     (case map_of (children s) playlist_name of
        Some (Folder f) \<Rightarrow>
          (if writable s \<and> map_of f filename \<noteq> Some Dir
           then Some (s\<lparr>children :=
                  AList.update playlist_name (Folder (AList.update filename (File c) f)) (children s)\<rparr>)
           else None)
      | _ \<Rightarrow> None)"

text \<open>The \<open>try: json.dump ... return True / except: return False\<close> that ends the mutating
  methods.\<close>

definition save_descriptor :: "playlist_manager \<Rightarrow> string \<Rightarrow> descriptor \<Rightarrow> bool \<times> playlist_manager" where
  "save_descriptor s playlist_name d =
     (case write_file s playlist_name descriptor_filename (Json d) of
        Some s' \<Rightarrow> (True, s')
      | None \<Rightarrow> (False, s))"

text \<open>
  Time: a method that stamps takes \<open>clk\<close>, where \<open>clk k\<close> is what the \<open>k\<close>-th call of
  \<open>_get_timestamp\<close> made during the method returns (counting from \<open>0\<close>).
\<close>

datatype error = KeyError string

definition new_track :: "string \<Rightarrow> int \<Rightarrow> string \<Rightarrow> track_info" where
  "new_track p n ts =
     \<lparr>ti_display_name = Some (path_stem p), ti_order = Some n, ti_added = Some ts,
      ti_modified = None\<rparr>"

text \<open>\<open>_ensure_descriptor_exists\<close> and \<open>initialize_descriptors\<close> (run by the constructor). The
  counter of the clock is threaded through.\<close>

fun enumerate_tracks :: "(nat \<Rightarrow> string) \<Rightarrow> nat \<Rightarrow> string list \<Rightarrow> (string \<times> track_info) list \<times> nat
    \<Rightarrow> (string \<times> track_info) list \<times> nat" where
  "enumerate_tracks clk i [] (trs, k) = (trs, k)"
| "enumerate_tracks clk i (p # ps) (trs, k) =
     enumerate_tracks clk (Suc i) ps (AList.update p (new_track p (int i) (clk k)) trs, Suc k)"

definition ensure_descriptor_exists :: "(nat \<Rightarrow> string) \<Rightarrow> string \<Rightarrow> playlist_manager \<times> nat
    \<Rightarrow> playlist_manager \<times> nat" where
  "ensure_descriptor_exists clk playlist_name sk =
     (let s = fst sk; k = snd sk; playlist_dir = map_of (children s) playlist_name
      in if \<not> path_exists playlist_dir descriptor_filename
         then (let audio_files = get_audio_files playlist_dir;
                   (trs, k') = enumerate_tracks clk 1 audio_files ([], Suc k);
                   descriptor = \<lparr>d_display_name = Some playlist_name,
                     d_description = Some (''Auto-generated playlist for '' @ playlist_name),
                     d_created = Some (clk k), d_modified = None, d_tracks = Some trs\<rparr>
               in (snd (save_descriptor s playlist_name descriptor), k'))
         else (s, k))"

definition is_dir :: "item \<Rightarrow> bool" where
  "is_dir it = (case it of Folder _ \<Rightarrow> True | PlainFile \<Rightarrow> False)"

definition initialize_descriptors :: "(nat \<Rightarrow> string) \<Rightarrow> playlist_manager \<Rightarrow> playlist_manager" where
  "initialize_descriptors clk s =
     fst (fold (\<lambda>(name, it) sk. if is_dir it then ensure_descriptor_exists clk name sk else sk)
            (children s) (s, 0))"

text \<open>\<open>get_playlists\<close>: the directories whose descriptor loads and is not empty;
  \<open>listing_step\<close> is the body of its loop.\<close>

definition listing_step :: "string \<times> item \<Rightarrow> (string \<times> descriptor) list \<Rightarrow> (string \<times> descriptor) list" where
  "listing_step = (\<lambda>(name, it) playlists.
     if is_dir it
     then (case load_descriptor (Some it) of
             None \<Rightarrow> playlists
           | Some d \<Rightarrow> if truthy d then AList.update name d playlists else playlists)
     else playlists)"

definition get_playlists :: "playlist_manager \<Rightarrow> (string \<times> descriptor) list \<times> playlist_manager" where
  "get_playlists s = (fold listing_step (children s) [], s)"

text \<open>
  \<open>refresh_playlist\<close>. The first loop adds an entry for every audio file whose path was not
  a key when the method started; \<open>descriptor['tracks']\<close> raises \<open>KeyError\<close> there when the
  descriptor has no \<open>tracks\<close>, and nothing catches it. The second loop deletes the keys
  that are not among the audio files; the order in which a Python set is walked does not
  change what is left.
\<close>

fun add_new_tracks :: "(nat \<Rightarrow> string) \<Rightarrow> string set \<Rightarrow> string list \<Rightarrow> descriptor \<times> nat
    \<Rightarrow> error + descriptor \<times> nat" where
  "add_new_tracks clk existing_tracks [] (d, k) = Inr (d, k)"
| "add_new_tracks clk existing_tracks (p # ps) (d, k) =
     (if p \<notin> existing_tracks
      then (case d_tracks d of
              None \<Rightarrow> Inl (KeyError ''tracks'')
            | Some trs \<Rightarrow>
                add_new_tracks clk existing_tracks ps
                  (d\<lparr>d_tracks := Some (AList.update p (new_track p (int (length trs) + 1) (clk k)) trs)\<rparr>,
                   Suc k))
      else add_new_tracks clk existing_tracks ps (d, k))"

definition remove_tracks :: "string list \<Rightarrow> descriptor \<Rightarrow> descriptor" where
  "remove_tracks tracks_to_remove d =
     (case d_tracks d of
        None \<Rightarrow> d
      | Some trs \<Rightarrow> d\<lparr>d_tracks := Some (fold AList.delete tracks_to_remove trs)\<rparr>)"

definition default_descriptor :: "string \<Rightarrow> string \<Rightarrow> descriptor" where
  "default_descriptor playlist_name ts =
     \<lparr>d_display_name = Some playlist_name,
      d_description = Some (''Playlist for '' @ playlist_name),
      d_created = Some ts, d_modified = None, d_tracks = Some []\<rparr>"

text \<open>\<open>self._load_descriptor(playlist_dir) or {...}\<close>: the loaded descriptor unless it is
  missing or empty, with the number of time stamps taken.\<close>

definition load_or_default :: "(nat \<Rightarrow> string) \<Rightarrow> item option \<Rightarrow> string \<Rightarrow> descriptor \<times> nat" where
  "load_or_default clk playlist_dir playlist_name =
     (case load_descriptor playlist_dir of
        None \<Rightarrow> (default_descriptor playlist_name (clk 0), 1)
      | Some d \<Rightarrow> if truthy d then (d, 0) else (default_descriptor playlist_name (clk 0), 1))"

definition refresh_playlist :: "(nat \<Rightarrow> string) \<Rightarrow> playlist_manager \<Rightarrow> string
    \<Rightarrow> (error + bool) \<times> playlist_manager" where
  "refresh_playlist clk s playlist_name =
     (let playlist_dir = map_of (children s) playlist_name
      in if playlist_dir = None then (Inr False, s)
         else
           (let current_files = get_audio_files playlist_dir;
                (descriptor, k) = load_or_default clk playlist_dir playlist_name;
                existing_tracks = (case d_tracks descriptor of None \<Rightarrow> [] | Some trs \<Rightarrow> map fst trs)
            in case add_new_tracks clk (set existing_tracks) current_files (descriptor, k) of
                 Inl e \<Rightarrow> (Inl e, s)
               | Inr (d1, k1) \<Rightarrow>
                   (let tracks_to_remove = filter (\<lambda>p. p \<notin> set current_files) existing_tracks;
                        d2 = remove_tracks tracks_to_remove d1;
                        d3 = d2\<lparr>d_modified := Some (clk k1)\<rparr>;
                        (ok, s') = save_descriptor s playlist_name d3
                    in (Inr ok, s'))))"

text \<open>\<open>reorder_tracks\<close>: \<open>enumerate(track_order, 1)\<close>; a path that is not a key is skipped.\<close>

fun set_orders :: "nat \<Rightarrow> string list \<Rightarrow> (string \<times> track_info) list \<Rightarrow> (string \<times> track_info) list" where
  "set_orders i [] trs = trs"
| "set_orders i (p # ps) trs =
     set_orders (Suc i) ps
       (case map_of trs p of
          None \<Rightarrow> trs
        | Some ti \<Rightarrow> AList.update p (ti\<lparr>ti_order := Some (int i)\<rparr>) trs)"

definition reorder_tracks :: "(nat \<Rightarrow> string) \<Rightarrow> playlist_manager \<Rightarrow> string \<Rightarrow> string list
    \<Rightarrow> bool \<times> playlist_manager" where
  "reorder_tracks clk s playlist_name track_order =
     (let playlist_dir = map_of (children s) playlist_name
      in case load_descriptor playlist_dir of
           None \<Rightarrow> (False, s)
         | Some d \<Rightarrow>
             (case d_tracks d of
                None \<Rightarrow> (False, s)
              | Some trs \<Rightarrow>
                  save_descriptor s playlist_name
                    (d\<lparr>d_tracks := Some (set_orders 1 track_order trs), d_modified := Some (clk 0)\<rparr>)))"

text \<open>\<open>export_playlist\<close>. The text is built as the successive \<open>f.write\<close> calls build it.\<close>

definition nl :: string where
  "nl = [CHR 0x0A]"

fun str_nat :: "nat \<Rightarrow> string" where
  "str_nat n = (if n < 10 then [''0123456789'' ! n] else str_nat (n div 10) @ [''0123456789'' ! (n mod 10)])"

definition track_absolute :: "playlist_manager \<Rightarrow> string \<Rightarrow> string \<Rightarrow> string" where
  "track_absolute s playlist_name track_path =
     absolute (cwd s) (playlists_dir s @ ''/'' @ playlist_name @ ''/'' @ track_path)"

definition m3u_text :: "playlist_manager \<Rightarrow> string \<Rightarrow> string list \<Rightarrow> string" where
  "m3u_text s playlist_name tracks =
     fold (\<lambda>track_path out.
             out @ ''#EXTINF:-1,'' @ get_track_display_name s playlist_name track_path @ nl
                 @ track_absolute s playlist_name track_path @ nl)
       tracks (''#EXTM3U'' @ nl)"

definition pls_text :: "playlist_manager \<Rightarrow> string \<Rightarrow> string list \<Rightarrow> string" where
  "pls_text s playlist_name tracks =
     fold (\<lambda>(i, track_path) out.
             out @ ''File'' @ str_nat i @ ''='' @ track_absolute s playlist_name track_path @ nl
                 @ ''Title'' @ str_nat i @ ''='' @ get_track_display_name s playlist_name track_path @ nl
                 @ ''Length'' @ str_nat i @ ''=-1'' @ nl)
       (zip [1 ..< Suc (length tracks)] tracks) (''[playlist]'' @ nl)
     @ ''NumberOfEntries='' @ str_nat (length tracks) @ nl @ ''Version=2'' @ nl"

definition export_playlist :: "playlist_manager \<Rightarrow> string \<Rightarrow> string \<Rightarrow> string option \<times> playlist_manager" where
  "export_playlist s playlist_name format =
     (if format \<notin> {''m3u'', ''pls''} then (None, s)
      else (let tracks = fst (get_playlist_tracks s playlist_name)
            in if tracks = [] then (None, s)
               else (let export_name = playlist_name @ ''.'' @ format;
                         out = (if format = ''m3u'' then m3u_text s playlist_name tracks
                                 else pls_text s playlist_name tracks)
                     in case write_file s playlist_name export_name (Other out) of
                          Some s' \<Rightarrow> (Some (playlists_dir s @ ''/'' @ playlist_name @ ''/'' @ export_name), s')
                        | None \<Rightarrow> (None, s))))"

section \<open>The playback engine\<close>

text \<open>
  The engine's fields. Seconds, volume and speed are Python floats; they are modelled as
  reals, of which only the order, \<open>min\<close>, \<open>max\<close> and adding one second are used. A
  callback field says whether a callback is registered; \<open>events\<close> lists the callbacks
  delivered so far, oldest first. Console output is not modelled.
\<close>

datatype event = TrackEnd | PositionUpdate real real | Error string

record engine =
  current_track :: "string option"
  is_loaded_flag :: bool
  is_playing :: bool
  is_paused :: bool
  position :: real
  duration :: real
  volume :: real
  speed :: real
  stop_thread :: bool
  on_track_end :: bool
  on_position_update :: bool
  on_error :: bool
  events :: "event list"

text \<open>
  What the world outside the engine answers during one call: which files exist, whether
  each call into the mixer returns or raises \<open>pygame.error\<close> (the only exception the
  backend is taken to raise), whether the mixer is busy, the length the metadata reader
  reports (\<open>None\<close> when it is missing or fails) and the size of the file (\<open>None\<close> when
  \<open>stat\<close> fails).
\<close>

datatype outcome = Ok | PygameError string

record env =
  file_exists :: "string \<Rightarrow> bool"
  mixer_load :: outcome
  mixer_play :: outcome
  mixer_unpause :: outcome
  mixer_pause :: outcome
  mixer_stop :: outcome
  mixer_set_volume :: outcome
  mixer_get_busy :: "string + bool"
  mutagen_length :: "real option"
  file_size :: "nat option"

definition supported_formats :: "string set" where
  "supported_formats = {''.mp3'', ''.wav'', ''.ogg'', ''.flac'', ''.aiff'', ''.wma'', ''.agg''}"

text \<open>The state the constructor leaves.\<close>

definition init_engine :: engine where
  "init_engine =
     \<lparr>current_track = None, is_loaded_flag = False, is_playing = False, is_paused = False,
      position = 0, duration = 0, volume = 0.7, speed = 1, stop_thread = False,
      on_track_end = False, on_position_update = False, on_error = False, events = []\<rparr>"

definition handle_error :: "string \<Rightarrow> engine \<Rightarrow> engine" where
  "handle_error error_msg s = (if on_error s then s\<lparr>events := events s @ [Error error_msg]\<rparr> else s)"

definition get_track_duration :: "env \<Rightarrow> real" where
  "get_track_duration ev =
     (case mutagen_length ev of
        Some l \<Rightarrow> l
      | None \<Rightarrow>
          (case file_size ev of
             Some n \<Rightarrow> min (real n / (128 * 1024 / 8)) 3600
           | None \<Rightarrow> 180))"

definition stop :: "env \<Rightarrow> engine \<Rightarrow> bool \<times> engine" where
  "stop ev s =
     (case mixer_stop ev of
        Ok \<Rightarrow> (True, s\<lparr>is_playing := False, is_paused := False, position := 0\<rparr>)
      | PygameError e \<Rightarrow> (False, handle_error (''Failed to stop: '' @ e) s))"

definition load_track :: "env \<Rightarrow> string \<Rightarrow> engine \<Rightarrow> bool \<times> engine" where
  "load_track ev track_path s =
     (if \<not> file_exists ev track_path
      then (False, handle_error (''File not found: '' @ track_path) s)
      else if lower (path_suffix track_path) \<notin> supported_formats
      then (False, handle_error (''Unsupported format: '' @ path_suffix track_path) s)
      else (let s1 = snd (stop ev s)
            in case mixer_load ev of
                 PygameError e \<Rightarrow> (False, handle_error (''Failed to load track: '' @ e) s1)
               | Ok \<Rightarrow>
                   (True, s1\<lparr>current_track := Some track_path, is_loaded_flag := True,
                             position := 0, duration := get_track_duration ev\<rparr>)))"

definition play :: "env \<Rightarrow> engine \<Rightarrow> bool \<times> engine" where
  "play ev s =
     (if \<not> is_loaded_flag s then (False, s)
      else (case (if is_paused s then mixer_unpause ev else mixer_play ev) of
              PygameError e \<Rightarrow> (False, handle_error (''Failed to start playback: '' @ e) s)
            | Ok \<Rightarrow>
                (let s1 = (if is_paused s then s\<lparr>is_paused := False\<rparr> else s);
                     s2 = s1\<lparr>is_playing := True\<rparr>
                 in case mixer_set_volume ev of
                      PygameError e \<Rightarrow> (False, handle_error (''Failed to start playback: '' @ e) s2)
                    | Ok \<Rightarrow> (True, s2))))"

definition pause :: "env \<Rightarrow> engine \<Rightarrow> bool \<times> engine" where
  "pause ev s =
     (if is_playing s \<and> \<not> is_paused s
      then (case mixer_pause ev of
              Ok \<Rightarrow> (True, s\<lparr>is_paused := True\<rparr>)
            | PygameError e \<Rightarrow> (False, handle_error (''Failed to pause: '' @ e) s))
      else (False, s))"

definition set_volume :: "env \<Rightarrow> real \<Rightarrow> engine \<Rightarrow> engine" where
  "set_volume ev v s =
     (let s1 = s\<lparr>volume := max 0 (min 1 v)\<rparr>
      in case mixer_set_volume ev of
           Ok \<Rightarrow> s1
         | PygameError e \<Rightarrow> handle_error (''Failed to set volume: '' @ e) s1)"

definition set_speed :: "real \<Rightarrow> engine \<Rightarrow> engine" where
  "set_speed v s = s\<lparr>speed := max 0.5 (min 2 v)\<rparr>"

definition set_position :: "env \<Rightarrow> real \<Rightarrow> engine \<Rightarrow> bool \<times> engine" where
  "set_position ev p s =
     (if \<not> is_loaded_flag s then (False, s)
      else if p = 0
      then (let was_playing = is_playing s;
                s1 = snd (stop ev s)
            in (True, if was_playing then snd (play ev s1) else s1))
      else (True, s\<lparr>position := max 0 (min (duration s) p)\<rparr>))"

text \<open>One round of the loop of \<open>position_tracker\<close>, without the sleep. An exception of
  \<open>get_busy\<close> is caught and printed.\<close>

definition notify_position :: "engine \<Rightarrow> engine" where
  "notify_position s =
     (if on_position_update s
      then s\<lparr>events := events s @ [PositionUpdate (position s) (duration s)]\<rparr>
      else s)"

definition position_tracker :: "env \<Rightarrow> engine \<Rightarrow> engine" where
  "position_tracker ev s =
     (if stop_thread s then s
      else if is_playing s \<and> \<not> is_paused s
      then (case mixer_get_busy ev of
              Inl e \<Rightarrow> s
            | Inr False \<Rightarrow>
                (let s1 = s\<lparr>is_playing := False, is_paused := False\<rparr>;
                     s2 = (if on_track_end s1 then s1\<lparr>events := events s1 @ [TrackEnd]\<rparr> else s1)
                 in notify_position s2)
            | Inr True \<Rightarrow>
                (let s1 = s\<lparr>position := position s + 1\<rparr>;
                     s2 = (if position s1 \<ge> duration s1 then s1\<lparr>position := duration s1\<rparr> else s1)
                 in notify_position s2))
      else s)"

text \<open>
  The tracker runs on a thread of its own and takes no lock: between any two of its reads
  and writes of the engine's fields the controller may run. \<open>tracker_step\<close> is one such
  read or write of a round of the loop, with the place in the code and the values already
  read kept in \<open>tracker_pc\<close>: \<open>self.position += 1.0\<close> is a read and then a write, and the
  test \<open>self.position >= self.duration\<close> and the assignment that follows are further reads
  and a write. \<open>tracker_round\<close> is a whole round with nothing in between, which is what
  \<open>position_tracker\<close> computes.
\<close>

datatype tracker_pc =
    Loop_test | Test_playing | Test_paused | Call_get_busy
  | Clear_playing | Clear_paused | Test_on_track_end
  | Read_position | Write_position real
  | Compare_position | Compare_duration real | Read_duration | Clamp_position real
  | Test_on_position_update | Arg_position | Arg_duration real
  | Sleeping | Exited

fun tracker_step :: "env \<Rightarrow> tracker_pc \<times> engine \<Rightarrow> tracker_pc \<times> engine" where
  "tracker_step ev (Loop_test, s) = (if stop_thread s then (Exited, s) else (Test_playing, s))"
| "tracker_step ev (Test_playing, s) = (if is_playing s then (Test_paused, s) else (Sleeping, s))"
| "tracker_step ev (Test_paused, s) = (if is_paused s then (Sleeping, s) else (Call_get_busy, s))"
| "tracker_step ev (Call_get_busy, s) =
     (case mixer_get_busy ev of
        Inl e \<Rightarrow> (Sleeping, s)
      | Inr False \<Rightarrow> (Clear_playing, s)
      | Inr True \<Rightarrow> (Read_position, s))"
| "tracker_step ev (Clear_playing, s) = (Clear_paused, s\<lparr>is_playing := False\<rparr>)"
| "tracker_step ev (Clear_paused, s) = (Test_on_track_end, s\<lparr>is_paused := False\<rparr>)"
| "tracker_step ev (Test_on_track_end, s) =
     (Test_on_position_update, if on_track_end s then s\<lparr>events := events s @ [TrackEnd]\<rparr> else s)"
| "tracker_step ev (Read_position, s) = (Write_position (position s), s)"
| "tracker_step ev (Write_position r, s) = (Compare_position, s\<lparr>position := r + 1\<rparr>)"
| "tracker_step ev (Compare_position, s) = (Compare_duration (position s), s)"
| "tracker_step ev (Compare_duration a, s) =
     (if a \<ge> duration s then (Read_duration, s) else (Test_on_position_update, s))"
| "tracker_step ev (Read_duration, s) = (Clamp_position (duration s), s)"
| "tracker_step ev (Clamp_position d, s) = (Test_on_position_update, s\<lparr>position := d\<rparr>)"
| "tracker_step ev (Test_on_position_update, s) =
     (if on_position_update s then (Arg_position, s) else (Sleeping, s))"
| "tracker_step ev (Arg_position, s) = (Arg_duration (position s), s)"
| "tracker_step ev (Arg_duration p, s) =
     (Sleeping, s\<lparr>events := events s @ [PositionUpdate p (duration s)]\<rparr>)"
| "tracker_step ev (Sleeping, s) = (Sleeping, s)"
| "tracker_step ev (Exited, s) = (Exited, s)"

definition tracker_round :: "env \<Rightarrow> engine \<Rightarrow> tracker_pc \<times> engine" where
  "tracker_round ev s = (tracker_step ev ^^ 13) (Loop_test, s)"

text \<open>
  \<open>load_track\<close> cut in two, so that steps of the tracker can fall inside it: up to and
  including \<open>self.position = 0.0\<close> (or up to the early return), and from the assignment of
  the duration to the return.
\<close>

definition load_track_head :: "env \<Rightarrow> string \<Rightarrow> engine \<Rightarrow> (bool \<times> engine) + engine" where
  "load_track_head ev track_path s =
     (if \<not> file_exists ev track_path
      then Inl (False, handle_error (''File not found: '' @ track_path) s)
      else if lower (path_suffix track_path) \<notin> supported_formats
      then Inl (False, handle_error (''Unsupported format: '' @ path_suffix track_path) s)
      else (let s1 = snd (stop ev s)
            in case mixer_load ev of
                 PygameError e \<Rightarrow> Inl (False, handle_error (''Failed to load track: '' @ e) s1)
               | Ok \<Rightarrow>
                   Inr (s1\<lparr>current_track := Some track_path, is_loaded_flag := True,
                             position := 0\<rparr>)))"

definition load_track_tail :: "env \<Rightarrow> engine \<Rightarrow> bool \<times> engine" where
  "load_track_tail ev s = (True, s\<lparr>duration := get_track_duration ev\<rparr>)"

text \<open>
  An interleaving of one \<open>load_track\<close> of the controller with the steps of the tracker. A
  move that is not enabled changes nothing.
\<close>

datatype move = Tracker | Load_head string | Load_tail

datatype controller = Not_called | In_load | Returned bool

fun exec :: "env \<Rightarrow> move \<Rightarrow> controller \<times> tracker_pc \<times> engine \<Rightarrow> controller \<times> tracker_pc \<times> engine" where
  "exec ev Tracker (c, pc, s) = (case tracker_step ev (pc, s) of (pc', s') \<Rightarrow> (c, pc', s'))"
| "exec ev (Load_head p) (Not_called, pc, s) =
     (case load_track_head ev p s of
        Inl (r, s') \<Rightarrow> (Returned r, pc, s')
      | Inr s1 \<Rightarrow> (In_load, pc, s1))"
| "exec ev Load_tail (In_load, pc, s) =
     (case load_track_tail ev s of (r, s') \<Rightarrow> (Returned r, pc, s'))"
| "exec ev m cfg = cfg"

definition interleave :: "env \<Rightarrow> move list \<Rightarrow> controller \<times> tracker_pc \<times> engine
    \<Rightarrow> controller \<times> tracker_pc \<times> engine" where
  "interleave ev ms cfg = fold (exec ev) ms cfg"

text \<open>
  A serial history of the engine: the calls of the controller and the rounds of the tracker,
  each run to its end before the next begins, and each with the world's answers during it.
  This is the engine as it runs when no step of the tracker falls inside a call and no call
  inside a round; the source does not enforce it.
\<close>

datatype call = Load string | Play | Pause | Stop | SetVolume real | SetSpeed real | Seek real | Tick

fun serial_step :: "env \<times> call \<Rightarrow> engine \<Rightarrow> engine" where
  "serial_step (ev, Load p) s = snd (load_track ev p s)"
| "serial_step (ev, Play) s = snd (play ev s)"
| "serial_step (ev, Pause) s = snd (pause ev s)"
| "serial_step (ev, Stop) s = snd (stop ev s)"
| "serial_step (ev, SetVolume v) s = set_volume ev v s"
| "serial_step (ev, SetSpeed v) s = set_speed v s"
| "serial_step (ev, Seek p) s = snd (set_position ev p s)"
| "serial_step (ev, Tick) s = position_tracker ev s"

definition serial_run :: "(env \<times> call) list \<Rightarrow> engine \<Rightarrow> engine" where
  "serial_run cs s = fold serial_step cs s"

section \<open>Vocabulary of the properties\<close>

text \<open>The order a descriptor gives to a path, as \<open>get_playlist_tracks\<close> reads it.\<close>

definition order_of :: "(string \<times> track_info) list \<Rightarrow> string \<Rightarrow> int" where
  "order_of trs p = (case map_of trs p of Some ti \<Rightarrow> get_order ti | None \<Rightarrow> 999)"

text \<open>The session invariant on the position.\<close>

definition in_range :: "engine \<Rightarrow> bool" where
  "in_range s \<longleftrightarrow> 0 \<le> position s \<and> position s \<le> duration s"

text \<open>The metadata reader, when it answers, reports a length that is not negative.\<close>

definition duration_ok :: "env \<Rightarrow> bool" where
  "duration_ok ev \<longleftrightarrow> (case mutagen_length ev of Some l \<Rightarrow> 0 \<le> l | None \<Rightarrow> True)"

text \<open>The callbacks delivered between two states of the engine.\<close>

definition new_events :: "engine \<Rightarrow> engine \<Rightarrow> event list" where
  "new_events s s' = drop (length (events s)) (events s')"

text \<open>The text of a file below a collection directory, when it is there and is not a
  descriptor; and the text made of the given lines, each ended by a newline.\<close>

definition file_text :: "playlist_manager \<Rightarrow> string \<Rightarrow> string \<Rightarrow> string option" where
  "file_text s playlist_name filename =
     (case map_of (entries (map_of (children s) playlist_name)) filename of
        Some (File (Other t)) \<Rightarrow> Some t
      | _ \<Rightarrow> None)"

definition unlines :: "string list \<Rightarrow> string" where
  "unlines ls = concat (map (\<lambda>l. l @ nl) ls)"

text \<open>The tracks of the persisted descriptor of a collection: none when the descriptor is
  missing, does not load or has no \<open>tracks\<close>.\<close>

definition persisted_tracks :: "playlist_manager \<Rightarrow> string \<Rightarrow> (string \<times> track_info) list" where
  "persisted_tracks s playlist_name =
     (case load_descriptor (map_of (children s) playlist_name) of
        None \<Rightarrow> []
      | Some d \<Rightarrow> (case d_tracks d of None \<Rightarrow> [] | Some trs \<Rightarrow> trs))"

text \<open>The entries the first loop of \<open>refresh_playlist\<close> appends for the paths \<open>ps\<close>, when
  the descriptor has \<open>n\<close> entries and \<open>k\<close> time stamps have been taken.\<close>

fun fresh_entries :: "(nat \<Rightarrow> string) \<Rightarrow> nat \<Rightarrow> nat \<Rightarrow> string list \<Rightarrow> (string \<times> track_info) list" where
  "fresh_entries clk n k [] = []"
| "fresh_entries clk n k (p # ps) =
     (p, new_track p (int n + 1) (clk k)) # fresh_entries clk (Suc n) (Suc k) ps"

text \<open>The last value \<open>enumerate(ids, i)\<close> pairs with the path \<open>p\<close>.\<close>

fun last_pos :: "nat \<Rightarrow> string list \<Rightarrow> string \<Rightarrow> nat option" where
  "last_pos i [] p = None"
| "last_pos i (q # qs) p =
     (case last_pos (Suc i) qs p of
        Some j \<Rightarrow> Some j
      | None \<Rightarrow> if q = p then Some i else None)"

text \<open>A path that does not start at the root: joined to a collection directory it names a
  path below that directory. (Paths are taken without \<open>..\<close>.)\<close>

definition relative_key :: "string \<Rightarrow> bool" where
  "relative_key p = (case p of CHR ''/'' # _ \<Rightarrow> False | _ \<Rightarrow> True)"

section \<open>Example states\<close>

definition quiet_env :: env where
  "quiet_env =
     \<lparr>file_exists = (\<lambda>p. p = ''music/a.mp3'' \<or> p = ''music/notes.txt''),
      mixer_load = Ok, mixer_play = Ok, mixer_unpause = Ok,
      mixer_pause = Ok, mixer_stop = Ok, mixer_set_volume = Ok, mixer_get_busy = Inr True,
      mutagen_length = Some 2.5, file_size = Some 40000\<rparr>"

definition failing_env :: env where
  "failing_env =
     \<lparr>file_exists = (\<lambda>p. p = ''music/a.mp3'' \<or> p = ''music/notes.txt''),
      mixer_load = PygameError ''load'', mixer_play = PygameError ''play'',
      mixer_unpause = PygameError ''unpause'', mixer_pause = PygameError ''pause'',
      mixer_stop = PygameError ''stop'', mixer_set_volume = PygameError ''volume'',
      mixer_get_busy = Inl ''busy'', mutagen_length = None, file_size = None\<rparr>"

definition listening :: engine where
  "listening = init_engine\<lparr>on_error := True\<rparr>"

definition playing_engine :: engine where
  "playing_engine = listening\<lparr>current_track := Some ''music/a.mp3'', is_loaded_flag := True,
     is_playing := True, duration := 2.5\<rparr>"

definition stale_descriptor :: descriptor where
  "stale_descriptor =
     \<lparr>d_display_name = Some ''Rock'', d_description = Some ''Auto-generated playlist for Rock'',
      d_created = Some ''2024-01-01T10:00:00'', d_modified = None,
      d_tracks = Some
        [(''b.mp3'', new_track ''b.mp3'' 2 ''2024-01-01T10:00:00''),
         (''gone.mp3'', new_track ''gone.mp3'' 3 ''2024-01-01T10:00:00''),
         (''a.mp3'', new_track ''a.mp3'' 1 ''2024-01-01T10:00:00'')]\<rparr>"

definition stale_catalog :: playlist_manager where
  "stale_catalog =
     \<lparr>cwd = ''/home/user'', playlists_dir = ''playlists'',
      children =
        [(''Rock'', Folder
           [(''a.mp3'', File (Other ''audio'')),
            (''b.mp3'', File (Other ''audio'')),
            (''playlist.json'', File (Json stale_descriptor))])],
      writable = True\<rparr>"

definition corrupt_catalog :: playlist_manager where
  "corrupt_catalog =
     \<lparr>cwd = ''/home/user'', playlists_dir = ''playlists'',
      children =
        [(''Rock'', Folder
           [(''a.mp3'', File (Other ''audio'')),
            (''playlist.json'', File (Other ''{ broken''))])],
      writable = True\<rparr>"

definition rock_descriptor :: descriptor where
  "rock_descriptor =
     \<lparr>d_display_name = Some ''Rock'', d_description = Some ''Auto-generated playlist for Rock'',
      d_created = Some ''2024-01-01T10:00:00'', d_modified = None,
      d_tracks = Some
        [(''a.mp3'', \<lparr>ti_display_name = Some ''Alpha'', ti_order = Some 1,
                      ti_added = Some ''2024-01-01T10:00:00'', ti_modified = None\<rparr>),
         (''b.mp3'', \<lparr>ti_display_name = Some ''Beta'', ti_order = Some 2,
                      ti_added = Some ''2024-01-01T10:00:00'', ti_modified = None\<rparr>)]\<rparr>"

definition rock_catalog :: playlist_manager where
  "rock_catalog =
     \<lparr>cwd = ''/home/user'', playlists_dir = ''playlists'',
      children =
        [(''Rock'', Folder
           [(''a.mp3'', File (Other ''audio'')),
            (''b.mp3'', File (Other ''audio'')),
            (''playlist.json'', File (Json rock_descriptor))])],
      writable = True\<rparr>"

definition clock_a :: "nat \<Rightarrow> string" where
  "clock_a k = ''2024-01-02T09:00:00''"

definition clock_b :: "nat \<Rightarrow> string" where
  "clock_b k = ''2024-01-02T09:00:05''"

definition gap_descriptor :: descriptor where
  "gap_descriptor =
     \<lparr>d_display_name = Some ''Rock'', d_description = Some ''Auto-generated playlist for Rock'',
      d_created = Some ''2024-01-01T10:00:00'', d_modified = None,
      d_tracks = Some
        [(''gone.mp3'', new_track ''gone.mp3'' 1 ''2024-01-01T10:00:00''),
         (''b.mp3'', new_track ''b.mp3'' 3 ''2024-01-01T10:00:00'')]\<rparr>"

definition gap_folder :: "(string \<times> node) list" where
  "gap_folder =
     [(''b.mp3'', File (Other ''audio'')),
      (''c.mp3'', File (Other ''audio'')),
      (''playlist.json'', File (Json gap_descriptor))]"

definition gap_catalog :: playlist_manager where
  "gap_catalog =
     \<lparr>cwd = ''/home/user'', playlists_dir = ''playlists'',
      children = [(''Rock'', Folder gap_folder)], writable = True\<rparr>"

definition racing_env :: env where
  "racing_env =
     \<lparr>file_exists = (\<lambda>p. p = ''music/a.mp3''),
      mixer_load = Ok, mixer_play = Ok, mixer_unpause = Ok,
      mixer_pause = Ok, mixer_stop = Ok, mixer_set_volume = Ok, mixer_get_busy = Inr True,
      mutagen_length = Some 30, file_size = Some 40000\<rparr>"

definition negative_env :: env where
  "negative_env = racing_env\<lparr>mutagen_length := Some (- 1)\<rparr>"

definition racing_engine :: engine where
  "racing_engine = init_engine\<lparr>current_track := Some ''music/old.mp3'', is_loaded_flag := True,
     is_playing := True, position := 50, duration := 100\<rparr>"

definition racing_moves :: "move list" where
  "racing_moves =
     [Tracker, Tracker, Tracker, Tracker, Tracker,
      Load_head ''music/a.mp3'',
      Tracker, Tracker, Tracker,
      Load_tail,
      Tracker]"

section \<open>Reading the tracks of a collection\<close>

lemma sorted_tracks:
  assumes "distinct (map fst trs)"
  shows "sorted (map (order_of trs) (map snd (sort_key fst (map (\<lambda>(p, ti). (get_order ti, p)) (filter P trs)))))"
proof -
  let ?es = "map (\<lambda>(p, ti). (get_order ti, p)) (filter P trs)"
  have "\<forall>e \<in> set ?es. order_of trs (snd e) = fst e"
    using assms by (auto simp: order_of_def)
  then have "\<forall>e \<in> set (sort_key fst ?es). order_of trs (snd e) = fst e"
    by simp
  then have "map (order_of trs) (map snd (sort_key fst ?es)) = map fst (sort_key fst ?es)"
    by simp
  then show ?thesis by (simp only: sorted_sort_key)
qed

lemma tracks_listing:
  assumes "map_of (children s) name = Some it"
    and "load_descriptor (Some it) = Some d"
    and "d_tracks d = Some trs"
    and "distinct (map fst trs)"
  shows "set (fst (get_playlist_tracks s name)) = {p \<in> fst ` set trs. path_exists (Some it) p}"
    and "distinct (fst (get_playlist_tracks s name))"
    and "sorted (map (order_of trs) (fst (get_playlist_tracks s name)))"
proof -
  let ?es = "map (\<lambda>(p, ti). (get_order ti, p)) (filter (\<lambda>(p, ti). path_exists (Some it) p) trs)"
  have r: "get_playlist_tracks s name = (map snd (sort_key fst ?es), s)"
    using assms by (simp add: get_playlist_tracks_def)
  have m: "map snd ?es = map fst (filter (\<lambda>(p, ti). path_exists (Some it) p) trs)"
    by (induction trs) auto
  have "set (map snd (sort_key fst ?es)) = set (map snd ?es)"
    by (simp only: set_map set_sort)
  also have "\<dots> = {p \<in> fst ` set trs. path_exists (Some it) p}"
    unfolding m by force
  finally have a: "set (map snd (sort_key fst ?es)) = {p \<in> fst ` set trs. path_exists (Some it) p}" .
  have "distinct (map snd ?es)"
    unfolding m using assms(4) by (simp add: distinct_map_filter)
  then have b: "distinct (map snd (sort_key fst ?es))"
    by (simp only: distinct_map set_sort distinct_sort)
  show "set (fst (get_playlist_tracks s name)) = {p \<in> fst ` set trs. path_exists (Some it) p}"
    using r a by simp
  show "distinct (fst (get_playlist_tracks s name))"
    using r b by simp
  show "sorted (map (order_of trs) (fst (get_playlist_tracks s name)))"
    using r sorted_tracks[OF assms(4)] by simp
qed

lemma get_playlist_tracks_state: "snd (get_playlist_tracks s name) = s"
  by (simp add: get_playlist_tracks_def Let_def split: option.splits)

text \<open>
  C5. For a collection whose descriptor loads and has tracks, \<open>get_playlist_tracks\<close> returns
  exactly the keys of the descriptor whose file exists, each once, in ascending order of
  their \<open>order\<close> value (999 where an entry has none), and leaves the state, the persisted
  descriptor included, as it was. The keys of a loaded JSON object are distinct.
\<close>

theorem get_playlist_tracks_sorted_existing:
  assumes "map_of (children s) name = Some it"
    and "load_descriptor (Some it) = Some d"
    and "d_tracks d = Some trs"
    and "distinct (map fst trs)"
  shows "snd (get_playlist_tracks s name) = s
    \<and> set (fst (get_playlist_tracks s name)) = {p \<in> fst ` set trs. path_exists (Some it) p}
    \<and> distinct (fst (get_playlist_tracks s name))
    \<and> sorted (map (order_of trs) (fst (get_playlist_tracks s name)))"
  using tracks_listing[OF assms] get_playlist_tracks_state[of s name] by blast

theorem get_playlist_tracks_sorted_existing_witness:
  "map_of (children stale_catalog) ''Rock'' = Some (Folder
           [(''a.mp3'', File (Other ''audio'')),
            (''b.mp3'', File (Other ''audio'')),
            (''playlist.json'', File (Json stale_descriptor))])
   \<and> fst (get_playlist_tracks stale_catalog ''Rock'') = [''a.mp3'', ''b.mp3'']
   \<and> snd (get_playlist_tracks stale_catalog ''Rock'') = stale_catalog"
proof -
  let ?it = "Folder
           [(''a.mp3'', File (Other ''audio'')),
            (''b.mp3'', File (Other ''audio'')),
            (''playlist.json'', File (Json stale_descriptor))]"
  let ?trs = "[(''b.mp3'', new_track ''b.mp3'' 2 ''2024-01-01T10:00:00''),
         (''gone.mp3'', new_track ''gone.mp3'' 3 ''2024-01-01T10:00:00''),
         (''a.mp3'', new_track ''a.mp3'' 1 ''2024-01-01T10:00:00'')]"
  have h1: "map_of (children stale_catalog) ''Rock'' = Some ?it"
    by (simp add: stale_catalog_def)
  have h2: "load_descriptor (Some ?it) = Some stale_descriptor"
    by (simp add: load_descriptor_def entries_def descriptor_filename_def)
  have h3: "d_tracks stale_descriptor = Some ?trs"
    by (simp add: stale_descriptor_def)
  have h4: "distinct (map fst ?trs)"
    by simp
  have r: "fst (get_playlist_tracks stale_catalog ''Rock'') = [''a.mp3'', ''b.mp3'']"
    by (simp add: get_playlist_tracks_def h1 h2 h3 path_exists_def entries_def get_order_def
        new_track_def)
  show ?thesis
    using get_playlist_tracks_sorted_existing [OF h1 h2 h3 h4] h1 r by simp
qed

section \<open>The playback engine: failures, frame and position\<close>

lemma handle_error_fields [simp]:
  "position (handle_error m s) = position s"
  "duration (handle_error m s) = duration s"
  "volume (handle_error m s) = volume s"
  "speed (handle_error m s) = speed s"
  "is_loaded_flag (handle_error m s) = is_loaded_flag s"
  "is_playing (handle_error m s) = is_playing s"
  "is_paused (handle_error m s) = is_paused s"
  "current_track (handle_error m s) = current_track s"
  "on_error (handle_error m s) = on_error s"
  by (simp_all add: handle_error_def)

lemma handle_error_events:
  "events (handle_error m s) = events s @ (if on_error s then [Error m] else [])"
  by (simp add: handle_error_def)

lemma get_track_duration_nonneg: "duration_ok ev \<Longrightarrow> 0 \<le> get_track_duration ev"
  by (auto simp: duration_ok_def get_track_duration_def split: option.splits)

lemma stop_in_range: "in_range s \<Longrightarrow> in_range (snd (stop ev s))"
  by (auto simp: in_range_def stop_def split: outcome.splits)

lemma play_position [simp]:
  "position (snd (play ev s)) = position s" "duration (snd (play ev s)) = duration s"
  by (auto simp: play_def Let_def split: outcome.splits)

lemma play_in_range: "in_range s \<Longrightarrow> in_range (snd (play ev s))"
  by (simp add: in_range_def)

lemma pause_in_range: "in_range s \<Longrightarrow> in_range (snd (pause ev s))"
  by (auto simp: in_range_def pause_def split: outcome.splits)

lemma load_track_in_range: "duration_ok ev \<Longrightarrow> in_range s \<Longrightarrow> in_range (snd (load_track ev p s))"
  using stop_in_range[of s ev]
  by (auto simp: in_range_def load_track_def Let_def get_track_duration_nonneg split: outcome.splits)

lemma load_track_success_in_range:
  "duration_ok ev \<Longrightarrow> fst (load_track ev p s) \<Longrightarrow> in_range (snd (load_track ev p s))"
  by (auto simp: in_range_def load_track_def Let_def get_track_duration_nonneg split: outcome.splits if_splits)

lemma set_position_in_range: "in_range s \<Longrightarrow> in_range (snd (set_position ev p s))"
  using stop_in_range[of s ev] play_in_range[of "snd (stop ev s)" ev]
  by (auto simp: set_position_def Let_def in_range_def)

lemma set_volume_in_range: "in_range s \<Longrightarrow> in_range (set_volume ev v s)"
  by (auto simp: set_volume_def Let_def in_range_def split: outcome.splits)

lemma position_tracker_in_range: "in_range s \<Longrightarrow> in_range (position_tracker ev s)"
  by (auto simp: position_tracker_def notify_position_def Let_def in_range_def split: sum.splits bool.splits)

lemma serial_step_in_range:
  "duration_ok ev \<Longrightarrow> in_range s \<Longrightarrow> in_range (serial_step (ev, c) s)"
  by (cases c) (simp_all add: load_track_in_range play_in_range pause_in_range stop_in_range
      set_volume_in_range set_position_in_range position_tracker_in_range, simp add: set_speed_def in_range_def)

lemma serial_run_in_range:
  "\<forall>(e, c) \<in> set cs. duration_ok e \<Longrightarrow> in_range s \<Longrightarrow> in_range (serial_run cs s)"
  unfolding serial_run_def
proof (induction cs arbitrary: s)
  case Nil
  then show ?case by simp
next
  case (Cons a cs)
  obtain e c where a: "a = (e, c)" by (cases a)
  with Cons.prems have "in_range (serial_step a s)" by (simp add: serial_step_in_range)
  with Cons show ?case by simp
qed

lemma load_track_split:
  "load_track ev p s = (case load_track_head ev p s of Inl r \<Rightarrow> r | Inr s1 \<Rightarrow> load_track_tail ev s1)"
  by (simp add: load_track_def load_track_head_def load_track_tail_def Let_def split: outcome.splits)

lemma funpow13: "(f ^^ 13) x = f (f (f (f (f (f (f (f (f (f (f (f (f x))))))))))))"
  by (simp add: eval_nat_numeral)

lemma tracker_round_serial:
  "snd (tracker_round ev s) = position_tracker ev s
   \<and> fst (tracker_round ev s) = (if stop_thread s then Exited else Sleeping)"
proof (cases "mixer_get_busy ev")
  case (Inl e)
  then show ?thesis
    unfolding tracker_round_def funpow13
    by (simp add: position_tracker_def)
next
  case (Inr b)
  show ?thesis
  proof (cases b)
    case True
    with Inr show ?thesis
      unfolding tracker_round_def funpow13
      by (simp add: position_tracker_def notify_position_def Let_def)
  next
    case False
    with Inr show ?thesis
      unfolding tracker_round_def funpow13
      by (simp add: position_tracker_def notify_position_def Let_def)
  qed
qed

lemma set_position_clamps:
  "is_loaded_flag s \<and> x \<noteq> 0 \<longrightarrow> position (snd (set_position e x s)) = max 0 (min (duration s) x)"
  by (simp add: set_position_def)

lemma position_tracker_advances:
  "\<not> stop_thread s \<and> is_playing s \<and> \<not> is_paused s \<and> mixer_get_busy e = Inr True \<longrightarrow>
     position (position_tracker e s) = min (position s + 1) (duration s)"
  by (auto simp: position_tracker_def notify_position_def Let_def)

lemma suffix_a_mp3: "path_suffix ''music/a.mp3'' = ''.mp3''"
  by (simp add: path_suffix_def path_name_def has_suffix_def after_last_dot_def)

lemma suffix_notes_txt: "path_suffix ''music/notes.txt'' = ''.txt''"
  by (simp add: path_suffix_def path_name_def has_suffix_def after_last_dot_def)

lemma lower_mp3: "lower ''.mp3'' \<in> supported_formats"
  by (simp add: lower_def lower_char_def supported_formats_def)

lemma lower_txt: "lower ''.txt'' \<notin> supported_formats"
  by (simp add: lower_def lower_char_def supported_formats_def)

text \<open>
  C8, as the code has it. The invariant \<open>0 \<le> position \<le> duration\<close> holds after a
  successful load and after every serial history that follows it (calls of the controller:
  play, pause, stop, seek to any position, volume, speed, further loads; and rounds of the
  tracker; each run to its end before the next begins), when the metadata reader reports no
  negative length in that load and in the later ones. A seek to a position other than 0, with
  a track loaded, sets the position to \<open>max 0 (min duration p)\<close>; a round of the tracker
  that finds the mixer busy while playing sets it to \<open>min (position + 1) duration\<close>; and a
  round of the tracker with nothing in between is \<open>position_tracker\<close>.
\<close>

theorem position_within_duration:
  assumes "duration_ok ev" and "fst (load_track ev p s0)" and "\<forall>(e, c) \<in> set cs. duration_ok e"
  shows "0 \<le> position (serial_run cs (snd (load_track ev p s0)))
    \<and> position (serial_run cs (snd (load_track ev p s0)))
         \<le> duration (serial_run cs (snd (load_track ev p s0)))
    \<and> (is_loaded_flag s \<and> x \<noteq> 0 \<longrightarrow>
          position (snd (set_position e x s)) = max 0 (min (duration s) x))
    \<and> (\<not> stop_thread s \<and> is_playing s \<and> \<not> is_paused s \<and> mixer_get_busy e = Inr True \<longrightarrow>
          position (position_tracker e s) = min (position s + 1) (duration s))
    \<and> snd (tracker_round e s) = position_tracker e s"
  using serial_run_in_range[OF assms(3) load_track_success_in_range[OF assms(1,2)]]
    set_position_clamps[of s x e] position_tracker_advances[of s e] tracker_round_serial[of e s]
  by (simp add: in_range_def)

theorem position_within_duration_witness:
  "duration_ok quiet_env
   \<and> fst (load_track quiet_env ''music/a.mp3'' init_engine)
   \<and> 0 \<le> position (serial_run [(quiet_env, Play), (quiet_env, Tick), (quiet_env, Tick),
          (quiet_env, Tick), (quiet_env, Pause), (quiet_env, Seek 0), (quiet_env, Stop)]
          (snd (load_track quiet_env ''music/a.mp3'' init_engine)))
   \<and> position (serial_run [(quiet_env, Play), (quiet_env, Tick), (quiet_env, Tick),
          (quiet_env, Tick), (quiet_env, Pause), (quiet_env, Seek 0), (quiet_env, Stop)]
          (snd (load_track quiet_env ''music/a.mp3'' init_engine)))
      \<le> duration (serial_run [(quiet_env, Play), (quiet_env, Tick), (quiet_env, Tick),
          (quiet_env, Tick), (quiet_env, Pause), (quiet_env, Seek 0), (quiet_env, Stop)]
          (snd (load_track quiet_env ''music/a.mp3'' init_engine)))
   \<and> is_loaded_flag playing_engine \<and> (7 :: real) \<noteq> 0
   \<and> position (snd (set_position quiet_env 7 playing_engine)) = 2.5
   \<and> \<not> stop_thread playing_engine \<and> is_playing playing_engine \<and> \<not> is_paused playing_engine
   \<and> mixer_get_busy quiet_env = Inr True
   \<and> position (position_tracker quiet_env playing_engine) = 1"
proof -
  have h1: "duration_ok quiet_env"
    by (simp add: duration_ok_def quiet_env_def)
  have h2: "fst (load_track quiet_env ''music/a.mp3'' init_engine)"
    by (simp add: load_track_def suffix_a_mp3 lower_mp3 quiet_env_def)
  have h3: "\<forall>(e, c) \<in> set [(quiet_env, Play), (quiet_env, Tick), (quiet_env, Tick),
          (quiet_env, Tick), (quiet_env, Pause), (quiet_env, Seek 0), (quiet_env, Stop)]. duration_ok e"
    using h1 by simp
  have k: "is_loaded_flag playing_engine" "(7 :: real) \<noteq> 0" "\<not> stop_thread playing_engine"
      "is_playing playing_engine" "\<not> is_paused playing_engine" "mixer_get_busy quiet_env = Inr True"
      "duration playing_engine = 2.5" "position playing_engine = 0"
    by (simp_all add: playing_engine_def listening_def init_engine_def quiet_env_def)
  note t = position_within_duration [OF h1 h2 h3, where s = playing_engine and x = 7 and e = quiet_env]
  have a: "position (snd (set_position quiet_env 7 playing_engine)) = 2.5"
    using t k by simp
  have b: "position (position_tracker quiet_env playing_engine) = 1"
    using t k by simp
  show ?thesis
    using t h1 h2 k a b by blast
qed

text \<open>
  Two histories that end with the position above the duration. A load on which the
  metadata reader reports the length \<open>-1\<close> succeeds and leaves the position \<open>0\<close> and the
  duration \<open>-1\<close>. And with a track of 100 seconds playing at 50: the tracker reads the
  position, the controller's load runs up to \<open>self.position = 0.0\<close>, the tracker writes 51
  and compares it with the old duration, the load sets the duration 30 and returns \<open>True\<close>,
  and the round of the tracker ends: position 51, duration 30.
\<close>

theorem position_counterexample:
  "fst (load_track negative_env ''music/a.mp3'' init_engine)
   \<and> position (snd (load_track negative_env ''music/a.mp3'' init_engine)) = 0
   \<and> duration (snd (load_track negative_env ''music/a.mp3'' init_engine)) = - 1
   \<and> duration (snd (load_track negative_env ''music/a.mp3'' init_engine))
        < position (snd (load_track negative_env ''music/a.mp3'' init_engine))
   \<and> fst (interleave racing_env racing_moves (Not_called, Loop_test, racing_engine)) = Returned True
   \<and> fst (snd (interleave racing_env racing_moves (Not_called, Loop_test, racing_engine))) = Sleeping
   \<and> position (snd (snd (interleave racing_env racing_moves (Not_called, Loop_test, racing_engine)))) = 51
   \<and> duration (snd (snd (interleave racing_env racing_moves (Not_called, Loop_test, racing_engine)))) = 30
   \<and> duration (snd (snd (interleave racing_env racing_moves (Not_called, Loop_test, racing_engine))))
        < position (snd (snd (interleave racing_env racing_moves (Not_called, Loop_test, racing_engine))))"
proof -
  have a: "load_track negative_env ''music/a.mp3'' init_engine =
      (True, init_engine\<lparr>current_track := Some ''music/a.mp3'', is_loaded_flag := True,
         duration := - 1\<rparr>)"
    by (simp add: load_track_def suffix_a_mp3 lower_mp3 negative_env_def racing_env_def stop_def
        get_track_duration_def init_engine_def)
  have b: "interleave racing_env racing_moves (Not_called, Loop_test, racing_engine) =
      (Returned True, Sleeping,
       init_engine\<lparr>current_track := Some ''music/a.mp3'', is_loaded_flag := True,
         position := 51, duration := 30\<rparr>)"
    by (simp add: interleave_def racing_moves_def racing_engine_def racing_env_def init_engine_def
        load_track_head_def load_track_tail_def suffix_a_mp3 lower_mp3 stop_def
        get_track_duration_def)
  show ?thesis unfolding a b by (simp add: init_engine_def)
qed

text \<open>
  C6. \<open>load_track\<close> on a path that does not exist returns \<open>False\<close> and reports "File not
  found"; on an existing path whose extension, in lower case, is not supported it returns
  \<open>False\<close> and reports "Unsupported format". On a path with the extension \<open>.txt\<close> it
  returns \<open>False\<close> and leaves the flags of the session (so an idle session idle), the
  position, the duration and the current track as they were.
\<close>

theorem load_track_rejects:
  "(\<not> file_exists ev p \<longrightarrow>
      load_track ev p s = (False, handle_error (''File not found: '' @ p) s))
   \<and> (file_exists ev p \<and> lower (path_suffix p) \<notin> supported_formats \<longrightarrow>
      load_track ev p s = (False, handle_error (''Unsupported format: '' @ path_suffix p) s))
   \<and> (path_suffix p = ''.txt'' \<longrightarrow>
        \<not> fst (load_track ev p s)
      \<and> is_loaded_flag (snd (load_track ev p s)) = is_loaded_flag s
      \<and> is_playing (snd (load_track ev p s)) = is_playing s
      \<and> is_paused (snd (load_track ev p s)) = is_paused s
      \<and> position (snd (load_track ev p s)) = position s
      \<and> duration (snd (load_track ev p s)) = duration s
      \<and> current_track (snd (load_track ev p s)) = current_track s)"
proof -
  have "lower ''.txt'' \<notin> supported_formats"
    by (simp add: lower_def lower_char_def supported_formats_def)
  then show ?thesis
    by (auto simp: load_track_def)
qed

theorem load_track_rejects_witness:
  "\<not> file_exists quiet_env ''music/b.mp3''
   \<and> load_track quiet_env ''music/b.mp3'' listening
       = (False, listening\<lparr>events := [Error ''File not found: music/b.mp3'']\<rparr>)
   \<and> file_exists quiet_env ''music/notes.txt''
   \<and> lower (path_suffix ''music/notes.txt'') \<notin> supported_formats
   \<and> path_suffix ''music/notes.txt'' = ''.txt''
   \<and> load_track quiet_env ''music/notes.txt'' listening
       = (False, listening\<lparr>events := [Error ''Unsupported format: .txt'']\<rparr>)
   \<and> \<not> is_loaded_flag (snd (load_track quiet_env ''music/notes.txt'' listening))
   \<and> \<not> is_playing (snd (load_track quiet_env ''music/notes.txt'' listening))"
  using load_track_rejects [of quiet_env "''music/b.mp3''" listening]
    load_track_rejects [of quiet_env "''music/notes.txt''" listening]
  by (simp add: suffix_notes_txt lower_txt quiet_env_def listening_def init_engine_def handle_error_def)

text \<open>
  C10. \<open>load_track\<close> never changes the volume or the speed. When it succeeds the position
  is 0, the current track is the given path, the loaded flag is set and the duration is the
  new estimate; the playing and paused flags are cleared by the inner \<open>stop\<close>, which is
  the case whenever the mixer's own stop does not raise.
\<close>

theorem load_track_frame:
  "volume (snd (load_track ev p s)) = volume s
   \<and> speed (snd (load_track ev p s)) = speed s
   \<and> (fst (load_track ev p s) \<longrightarrow>
        position (snd (load_track ev p s)) = 0
      \<and> current_track (snd (load_track ev p s)) = Some p
      \<and> is_loaded_flag (snd (load_track ev p s))
      \<and> duration (snd (load_track ev p s)) = get_track_duration ev
      \<and> (mixer_stop ev = Ok \<longrightarrow>
            \<not> is_playing (snd (load_track ev p s)) \<and> \<not> is_paused (snd (load_track ev p s))))"
  by (auto simp: load_track_def stop_def Let_def split: outcome.splits)


theorem load_track_frame_witness:
  "fst (load_track quiet_env ''music/a.mp3'' playing_engine)
   \<and> mixer_stop quiet_env = Ok
   \<and> volume (snd (load_track quiet_env ''music/a.mp3'' playing_engine)) = 0.7
   \<and> speed (snd (load_track quiet_env ''music/a.mp3'' playing_engine)) = 1
   \<and> \<not> is_playing (snd (load_track quiet_env ''music/a.mp3'' playing_engine))"
proof -
  have h: "fst (load_track quiet_env ''music/a.mp3'' playing_engine)"
    by (simp add: load_track_def suffix_a_mp3 lower_mp3 quiet_env_def)
  have k: "mixer_stop quiet_env = Ok"
    by (simp add: quiet_env_def)
  have v: "volume playing_engine = 0.7" "speed playing_engine = 1"
    by (simp_all add: playing_engine_def listening_def init_engine_def)
  show ?thesis
    using load_track_frame [of quiet_env "''music/a.mp3''" playing_engine] h k v by simp
qed

text \<open>
  C7, as the code has it. Every operation returns a truth value. With an error callback
  registered: a \<open>load_track\<close> that fails delivers an error event; a \<open>stop\<close> that fails, a
  \<open>play\<close> that fails with a track loaded and a \<open>pause\<close> that fails while playing (the mixer
  raised) deliver exactly one error event. A \<open>play\<close> or a \<open>set_position\<close> with no track
  loaded, and a \<open>pause\<close> while not playing, return \<open>False\<close> and change nothing: no event is
  delivered. With a track loaded \<open>set_position\<close> returns \<open>True\<close>.
\<close>

theorem failures_and_error_events:
  assumes "on_error s"
  shows "(\<not> fst (load_track ev p s) \<longrightarrow> (\<exists>m. Error m \<in> set (new_events s (snd (load_track ev p s)))))
   \<and> (\<not> fst (stop ev s) \<longrightarrow> (\<exists>m. new_events s (snd (stop ev s)) = [Error m]))
   \<and> (is_loaded_flag s \<and> \<not> fst (play ev s) \<longrightarrow> (\<exists>m. new_events s (snd (play ev s)) = [Error m]))
   \<and> (\<not> is_loaded_flag s \<longrightarrow> play ev s = (False, s))
   \<and> (is_playing s \<and> \<not> is_paused s \<and> \<not> fst (pause ev s) \<longrightarrow>
        (\<exists>m. new_events s (snd (pause ev s)) = [Error m]))
   \<and> (\<not> (is_playing s \<and> \<not> is_paused s) \<longrightarrow> pause ev s = (False, s))
   \<and> (\<not> is_loaded_flag s \<longrightarrow> set_position ev x s = (False, s))
   \<and> (is_loaded_flag s \<longrightarrow> fst (set_position ev x s))"
proof -
  have a: "\<not> fst (load_track ev p s) \<longrightarrow> (\<exists>m. Error m \<in> set (new_events s (snd (load_track ev p s))))"
    using assms
    by (auto simp: load_track_def new_events_def handle_error_events stop_def Let_def
        split: outcome.splits if_splits)
  have b: "\<not> fst (stop ev s) \<longrightarrow> (\<exists>m. new_events s (snd (stop ev s)) = [Error m])"
    using assms by (auto simp: new_events_def handle_error_events stop_def split: outcome.splits)
  have c: "is_loaded_flag s \<and> \<not> fst (play ev s) \<longrightarrow> (\<exists>m. new_events s (snd (play ev s)) = [Error m])"
    using assms by (auto simp: new_events_def handle_error_events play_def Let_def split: outcome.splits)
  have d: "is_playing s \<and> \<not> is_paused s \<and> \<not> fst (pause ev s) \<longrightarrow>
        (\<exists>m. new_events s (snd (pause ev s)) = [Error m])"
    using assms by (auto simp: new_events_def handle_error_events pause_def split: outcome.splits)
  have e: "\<not> is_loaded_flag s \<longrightarrow> play ev s = (False, s)"
    by (simp add: play_def)
  have f: "\<not> (is_playing s \<and> \<not> is_paused s) \<longrightarrow> pause ev s = (False, s)"
    by (simp add: pause_def)
  have g: "\<not> is_loaded_flag s \<longrightarrow> set_position ev x s = (False, s)"
    by (simp add: set_position_def)
  have h: "is_loaded_flag s \<longrightarrow> fst (set_position ev x s)"
    by (simp add: set_position_def Let_def)
  show ?thesis
    using a b c d e f g h by blast
qed

theorem failures_and_error_events_witness:
  "on_error playing_engine \<and> is_loaded_flag playing_engine
   \<and> is_playing playing_engine \<and> \<not> is_paused playing_engine
   \<and> \<not> fst (load_track failing_env ''music/a.mp3'' playing_engine)
   \<and> \<not> fst (stop failing_env playing_engine)
   \<and> new_events playing_engine (snd (stop failing_env playing_engine)) = [Error ''Failed to stop: stop'']
   \<and> \<not> fst (play failing_env playing_engine)
   \<and> new_events playing_engine (snd (play failing_env playing_engine))
        = [Error ''Failed to start playback: play'']
   \<and> \<not> fst (pause failing_env playing_engine)
   \<and> new_events playing_engine (snd (pause failing_env playing_engine)) = [Error ''Failed to pause: pause'']
   \<and> fst (set_position failing_env 0 playing_engine)
   \<and> on_error listening \<and> \<not> is_loaded_flag listening
   \<and> \<not> (is_playing listening \<and> \<not> is_paused listening)
   \<and> play failing_env listening = (False, listening)
   \<and> pause failing_env listening = (False, listening)
   \<and> set_position failing_env 0 listening = (False, listening)"
  using failures_and_error_events [of playing_engine failing_env "''music/a.mp3''" 0]
    failures_and_error_events [of listening failing_env "''music/a.mp3''" 0]
  by (simp add: playing_engine_def listening_def init_engine_def failing_env_def load_track_def
      suffix_a_mp3 lower_mp3 stop_def play_def pause_def new_events_def handle_error_def)

text \<open>
  With an error callback registered and no track loaded, \<open>play\<close> returns \<open>False\<close> and no
  event at all is delivered.
\<close>

theorem play_without_track_counterexample:
  "fst (play quiet_env listening) = False \<and> events (snd (play quiet_env listening)) = []"
  by (simp add: play_def listening_def init_engine_def)

section \<open>Listing the collections\<close>

lemma listing_step_keys:
  assumes "m \<in> fst ` set (listing_step (n, it) acc)"
  shows "m \<in> fst ` set acc \<or> (m = n \<and> load_descriptor (Some it) \<noteq> None)"
proof -
  have k: "fst ` set (AList.update n d acc) = insert n (fst ` set acc)" for d
    by (simp add: AList.dom_update)
  show ?thesis
    using assms by (auto simp: listing_step_def k split: option.splits if_splits)
qed

lemma get_playlists_keys:
  assumes "m \<in> fst ` set (fold listing_step xs acc)"
  shows "m \<in> fst ` set acc \<or> (\<exists>it. (m, it) \<in> set xs \<and> load_descriptor (Some it) \<noteq> None)"
  using assms
proof (induction xs arbitrary: acc)
  case Nil
  then show ?case by simp
next
  case (Cons x xs)
  obtain n it where x: "x = (n, it)" by (cases x)
  from Cons.prems have "m \<in> fst ` set (fold listing_step xs (listing_step (n, it) acc))"
    by (simp add: x)
  from Cons.IH[OF this] listing_step_keys[of m n it acc] show ?case
    unfolding x by auto
qed

lemma write_file_other:
  assumes "write_file s n p c = Some s'" and "n \<noteq> name"
  shows "map_of (children s') name = map_of (children s) name"
  using assms
  by (auto simp: write_file_def AList.update_conv' split: option.splits item.splits if_splits)

lemma ensure_keeps:
  assumes "map_of (children (fst sk)) name = Some (Folder f)"
    and "map_of f descriptor_filename \<noteq> None"
  shows "map_of (children (fst (ensure_descriptor_exists clk n sk))) name = Some (Folder f)"
proof (cases "n = name")
  case True
  with assms show ?thesis
    by (auto simp: ensure_descriptor_exists_def Let_def path_exists_def entries_def)
next
  case False
  show ?thesis
    using assms(1) write_file_other[OF _ False]
    by (auto simp: ensure_descriptor_exists_def Let_def save_descriptor_def
        split: prod.splits option.splits)
qed

lemma initialize_keeps:
  assumes "map_of (children (fst sk)) name = Some (Folder f)"
    and "map_of f descriptor_filename \<noteq> None"
  shows "map_of (children (fst (fold (\<lambda>(n, it) sk. if is_dir it then ensure_descriptor_exists clk n sk else sk)
            xs sk))) name = Some (Folder f)"
  using assms(1)
proof (induction xs arbitrary: sk)
  case Nil
  then show ?case by simp
next
  case (Cons x xs)
  obtain n it where x: "x = (n, it)" by (cases x)
  show ?case
    using Cons.IH[OF ensure_keeps[OF Cons.prems assms(2)]] Cons.IH[OF Cons.prems]
    by (simp add: x)
qed

text \<open>
  C3, as the code has it. When the descriptor file of a collection holds text that is not
  JSON, loading it gives no descriptor and raises nothing; \<open>get_playlists\<close> returns,
  changes nothing on disk (the file is not renamed, no descriptor is written) and leaves
  the collection out of its result; the constructor's \<open>initialize_descriptors\<close> leaves the
  directory as it is too, since the descriptor file exists. The names in the playlists
  directory are distinct.
\<close>

theorem corrupt_descriptor_skipped:
  assumes "distinct (map fst (children s))"
    and "map_of (children s) name = Some (Folder f)"
    and "map_of f descriptor_filename = Some (File (Other junk))"
  shows "load_descriptor (Some (Folder f)) = None
    \<and> snd (get_playlists s) = s
    \<and> name \<notin> fst ` set (fst (get_playlists s))
    \<and> map_of (children (initialize_descriptors clk s)) name = Some (Folder f)"
proof -
  have a: "load_descriptor (Some (Folder f)) = None"
    using assms(3) by (simp add: load_descriptor_def entries_def)
  have "\<And>it. (name, it) \<in> set (children s) \<Longrightarrow> it = Folder f"
    using assms(1,2) by (metis map_of_is_SomeI option.inject)
  note only = this
  have b: "name \<notin> fst ` set (fst (get_playlists s))"
  proof
    assume "name \<in> fst ` set (fst (get_playlists s))"
    then have "name \<in> fst ` set (fold listing_step (children s) [])"
      by (simp add: get_playlists_def)
    from get_playlists_keys[OF this] obtain it
      where "(name, it) \<in> set (children s)" and "load_descriptor (Some it) \<noteq> None"
      by auto
    with only a show False by auto
  qed
  have c: "map_of (children (initialize_descriptors clk s)) name = Some (Folder f)"
    unfolding initialize_descriptors_def
    using initialize_keeps[of "(s, 0)" name f clk "children s"] assms(2,3) by simp
  show ?thesis using a b c by (simp add: get_playlists_def)
qed

theorem corrupt_descriptor_skipped_witness:
  "distinct (map fst (children corrupt_catalog))
   \<and> map_of (children corrupt_catalog) ''Rock'' = Some (Folder
           [(''a.mp3'', File (Other ''audio'')),
            (''playlist.json'', File (Other ''{ broken''))])
   \<and> ''Rock'' \<notin> fst ` set (fst (get_playlists corrupt_catalog))"
proof -
  let ?f = "[(''a.mp3'', File (Other ''audio'')),
            (''playlist.json'', File (Other ''{ broken''))]"
  have h1: "distinct (map fst (children corrupt_catalog))"
    by (simp add: corrupt_catalog_def)
  have h2: "map_of (children corrupt_catalog) ''Rock'' = Some (Folder ?f)"
    by (simp add: corrupt_catalog_def)
  have h3: "map_of ?f descriptor_filename = Some (File (Other ''{ broken''))"
    by (simp add: descriptor_filename_def)
  show ?thesis
    using corrupt_descriptor_skipped [OF h1 h2 h3] h1 h2 by simp
qed

text \<open>
  A collection with one audio file and a descriptor that is not JSON: the listing is empty,
  nothing on disk has changed, there is no \<open>playlist.json.backup\<close>, and the descriptor
  still does not load.
\<close>

theorem corrupt_descriptor_counterexample:
  "fst (get_playlists corrupt_catalog) = []
   \<and> snd (get_playlists corrupt_catalog) = corrupt_catalog
   \<and> \<not> path_exists (map_of (children (snd (get_playlists corrupt_catalog))) ''Rock'') ''playlist.json.backup''
   \<and> load_descriptor (map_of (children (snd (get_playlists corrupt_catalog))) ''Rock'') = None"
  by (simp add: get_playlists_def listing_step_def corrupt_catalog_def is_dir_def
      load_descriptor_def entries_def descriptor_filename_def path_exists_def)

section \<open>Exporting a collection\<close>

lemma fold_append_concat:
  "fold (\<lambda>t out. out @ g t) ts init = init @ concat (map g ts)"
  by (induction ts arbitrary: init) simp_all

lemma m3u_text_lines:
  "m3u_text s name tracks =
     unlines (''#EXTM3U'' #
       concat (map (\<lambda>t. [''#EXTINF:-1,'' @ get_track_display_name s name t, track_absolute s name t]) tracks))"
  unfolding m3u_text_def unlines_def fold_append_concat
  by (induction tracks) simp_all

lemma write_file_text:
  assumes "write_file s name p (Other t) = Some s'"
  shows "file_text s' name p = Some t"
  using assms
  by (auto simp: write_file_def file_text_def entries_def AList.update_conv'
      split: option.splits item.splits if_splits)

lemma tracks_need_folder:
  assumes "fst (get_playlist_tracks s name) \<noteq> []"
  shows "\<exists>f. map_of (children s) name = Some (Folder f)"
proof (cases "map_of (children s) name")
  case None
  with assms show ?thesis by (simp add: get_playlist_tracks_def)
next
  case (Some it)
  show ?thesis
  proof (cases it)
    case (Folder f)
    with Some show ?thesis by simp
  next
    case PlainFile
    with Some assms show ?thesis
      by (simp add: get_playlist_tracks_def load_descriptor_def entries_def get_audio_files_def)
  qed
qed

lemma export_succeeds:
  assumes "fst (get_playlist_tracks s name) \<noteq> []" and "writable s"
    and "map_of (entries (map_of (children s) name)) (name @ ''.m3u'') \<noteq> Some Dir"
  shows "fst (export_playlist s name ''m3u'') = Some (playlists_dir s @ ''/'' @ name @ ''/'' @ name @ ''.m3u'')"
proof -
  from tracks_need_folder[OF assms(1)] obtain f where f: "map_of (children s) name = Some (Folder f)"
    by blast
  with assms(3) have "map_of f (name @ ''.m3u'') \<noteq> Some Dir"
    by (simp add: entries_def)
  with f assms(1,2) show ?thesis
    by (simp add: export_playlist_def Let_def write_file_def)
qed

text \<open>
  C9. \<open>export_playlist\<close> returns \<open>None\<close> and changes nothing when the format is neither
  \<open>m3u\<close> nor \<open>pls\<close>, and when the collection has no tracks. When it returns a path for
  the format \<open>m3u\<close>, the path is that of \<open>name.m3u\<close> in the collection directory, and the
  file holds the line \<open>#EXTM3U\<close> followed, for each track in the order of
  \<open>get_playlist_tracks\<close>, by the line \<open>#EXTINF:-1,\<close> with the display name and the line
  with the absolute path. It does return a path for \<open>m3u\<close> when the collection has tracks,
  the file system accepts the write and \<open>name.m3u\<close> is not a directory.
\<close>

theorem export_playlist_m3u:
  "(format \<notin> {''m3u'', ''pls''} \<longrightarrow> export_playlist s name format = (None, s))
   \<and> (fst (get_playlist_tracks s name) = [] \<longrightarrow> export_playlist s name format = (None, s))
   \<and> (export_playlist s name ''m3u'' = (Some path, s') \<longrightarrow>
        path = playlists_dir s @ ''/'' @ name @ ''/'' @ name @ ''.m3u''
      \<and> file_text s' name (name @ ''.m3u'') =
          Some (unlines (''#EXTM3U'' #
            concat (map (\<lambda>t. [''#EXTINF:-1,'' @ get_track_display_name s name t,
                               track_absolute s name t])
                      (fst (get_playlist_tracks s name))))))
   \<and> (fst (get_playlist_tracks s name) \<noteq> [] \<and> writable s
        \<and> map_of (entries (map_of (children s) name)) (name @ ''.m3u'') \<noteq> Some Dir \<longrightarrow>
        fst (export_playlist s name ''m3u'')
          = Some (playlists_dir s @ ''/'' @ name @ ''/'' @ name @ ''.m3u''))"
proof -
  have a: "format \<notin> {''m3u'', ''pls''} \<longrightarrow> export_playlist s name format = (None, s)"
    by (simp add: export_playlist_def)
  have b: "fst (get_playlist_tracks s name) = [] \<longrightarrow> export_playlist s name format = (None, s)"
    by (simp add: export_playlist_def)
  have c: "export_playlist s name ''m3u'' = (Some path, s') \<longrightarrow>
        path = playlists_dir s @ ''/'' @ name @ ''/'' @ name @ ''.m3u''
      \<and> file_text s' name (name @ ''.m3u'') =
          Some (m3u_text s name (fst (get_playlist_tracks s name)))"
    using write_file_text[of s name "name @ ''.m3u''" "m3u_text s name (fst (get_playlist_tracks s name))" s']
    by (auto simp: export_playlist_def Let_def split: if_splits option.splits)
  have d: "fst (get_playlist_tracks s name) \<noteq> [] \<and> writable s
        \<and> map_of (entries (map_of (children s) name)) (name @ ''.m3u'') \<noteq> Some Dir \<longrightarrow>
        fst (export_playlist s name ''m3u'')
          = Some (playlists_dir s @ ''/'' @ name @ ''/'' @ name @ ''.m3u'')"
    using export_succeeds[of s name] by blast
  show ?thesis using a b c d unfolding m3u_text_lines by blast
qed


lemma rock_tracks: "fst (get_playlist_tracks rock_catalog ''Rock'') = [''a.mp3'', ''b.mp3'']"
  by (simp add: get_playlist_tracks_def rock_catalog_def load_descriptor_def entries_def
      descriptor_filename_def rock_descriptor_def path_exists_def get_order_def)

lemma rock_export: "fst (export_playlist rock_catalog ''Rock'' ''m3u'') = Some ''playlists/Rock/Rock.m3u''"
  by (simp add: export_playlist_def rock_tracks write_file_def Let_def)
     (simp add: rock_catalog_def)

theorem export_playlist_m3u_witness:
  "''mp3'' \<notin> {''m3u'', ''pls''}
   \<and> export_playlist rock_catalog ''Rock'' ''mp3'' = (None, rock_catalog)
   \<and> fst (get_playlist_tracks rock_catalog ''Jazz'') = []
   \<and> export_playlist rock_catalog ''Jazz'' ''m3u'' = (None, rock_catalog)
   \<and> fst (get_playlist_tracks rock_catalog ''Rock'') \<noteq> []
   \<and> writable rock_catalog
   \<and> map_of (entries (map_of (children rock_catalog) ''Rock'')) ''Rock.m3u'' \<noteq> Some Dir
   \<and> fst (export_playlist rock_catalog ''Rock'' ''m3u'') = Some ''playlists/Rock/Rock.m3u''
   \<and> file_text (snd (export_playlist rock_catalog ''Rock'' ''m3u'')) ''Rock'' ''Rock.m3u'' =
        Some (unlines [''#EXTM3U'',
          ''#EXTINF:-1,Alpha'', ''/home/user/playlists/Rock/a.mp3'',
          ''#EXTINF:-1,Beta'', ''/home/user/playlists/Rock/b.mp3''])"
proof -
  have w: "fst (get_playlist_tracks rock_catalog ''Rock'') \<noteq> []"
    by (simp add: rock_tracks)
  have w': "writable rock_catalog"
      "map_of (entries (map_of (children rock_catalog) ''Rock'')) ''Rock.m3u'' \<noteq> Some Dir"
    by (simp_all add: rock_catalog_def entries_def)
  have h1: "''mp3'' \<notin> {''m3u'', ''pls''}"
    by simp
  have h2: "fst (get_playlist_tracks rock_catalog ''Jazz'') = []"
    by (simp add: get_playlist_tracks_def rock_catalog_def)
  have h3: "export_playlist rock_catalog ''Rock'' ''m3u'' =
      (Some ''playlists/Rock/Rock.m3u'', snd (export_playlist rock_catalog ''Rock'' ''m3u''))"
    using rock_export by (metis prod.collapse)
  have n: "get_track_display_name rock_catalog ''Rock'' ''a.mp3'' = ''Alpha''"
      "get_track_display_name rock_catalog ''Rock'' ''b.mp3'' = ''Beta''"
    by (simp_all add: get_track_display_name_def rock_catalog_def load_descriptor_def entries_def
      descriptor_filename_def rock_descriptor_def)
  have p: "track_absolute rock_catalog ''Rock'' ''a.mp3'' = ''/home/user/playlists/Rock/a.mp3''"
      "track_absolute rock_catalog ''Rock'' ''b.mp3'' = ''/home/user/playlists/Rock/b.mp3''"
    by (simp_all add: track_absolute_def absolute_def rock_catalog_def)
  note t1 = export_playlist_m3u [of "''mp3''" rock_catalog "''Rock''" "''playlists/Rock/Rock.m3u''"
        "snd (export_playlist rock_catalog ''Rock'' ''m3u'')"]
  note t2 = export_playlist_m3u [of "''m3u''" rock_catalog "''Jazz''" "''playlists/Rock/Rock.m3u''"
        "snd (export_playlist rock_catalog ''Rock'' ''m3u'')"]
  have a: "export_playlist rock_catalog ''Rock'' ''mp3'' = (None, rock_catalog)"
    using t1 h1 by blast
  have b: "export_playlist rock_catalog ''Jazz'' ''m3u'' = (None, rock_catalog)"
    using t2 h2 by blast
  have "file_text (snd (export_playlist rock_catalog ''Rock'' ''m3u'')) ''Rock'' (''Rock'' @ ''.m3u'') =
          Some (unlines (''#EXTM3U'' #
            concat (map (\<lambda>t. [''#EXTINF:-1,'' @ get_track_display_name rock_catalog ''Rock'' t,
                               track_absolute rock_catalog ''Rock'' t])
                      (fst (get_playlist_tracks rock_catalog ''Rock'')))))"
    using t1 h3 by blast
  then have c: "file_text (snd (export_playlist rock_catalog ''Rock'' ''m3u'')) ''Rock'' ''Rock.m3u'' =
        Some (unlines [''#EXTM3U'',
          ''#EXTINF:-1,Alpha'', ''/home/user/playlists/Rock/a.mp3'',
          ''#EXTINF:-1,Beta'', ''/home/user/playlists/Rock/b.mp3''])"
    by (simp add: rock_tracks n p)
  show ?thesis
    using h1 a h2 b w w' rock_export c by blast
qed

section \<open>Refreshing a collection\<close>

lemma fresh_entries_keys [simp]: "map fst (fresh_entries clk n k ps) = ps"
  by (induction ps arbitrary: n k) simp_all

lemma fresh_entries_lookup:
  "distinct ps \<Longrightarrow> i < length ps \<Longrightarrow>
   map_of (fresh_entries clk n k ps) (ps ! i) = Some (new_track (ps ! i) (int n + int i + 1) (clk (k + i)))"
proof (induction ps arbitrary: n k i)
  case Nil
  then show ?case by simp
next
  case (Cons p ps)
  show ?case
  proof (cases i)
    case 0
    then show ?thesis by simp
  next
    case (Suc j)
    with Cons.prems have "ps ! j \<noteq> p" by auto
    with Cons.IH[of j "Suc n" "Suc k"] Cons.prems Suc show ?thesis by simp
  qed
qed

lemma update_fresh_key: "p \<notin> fst ` set al \<Longrightarrow> AList.update p v al = al @ [(p, v)]"
  by (induction al) auto

lemma add_new_tracks_closed:
  assumes "d_tracks d = Some trs" and "distinct ps"
    and "\<forall>p \<in> set ps. p \<in> fst ` set trs \<longrightarrow> p \<in> existing"
  shows "add_new_tracks clk existing ps (d, k) =
     Inr (d\<lparr>d_tracks := Some (trs @ fresh_entries clk (length trs) k (filter (\<lambda>p. p \<notin> existing) ps))\<rparr>,
          k + length (filter (\<lambda>p. p \<notin> existing) ps))"
  using assms
proof (induction ps arbitrary: d trs k)
  case Nil
  then show ?case by simp
next
  case (Cons p ps)
  show ?case
  proof (cases "p \<in> existing")
    case True
    with Cons.IH[of d trs k] Cons.prems show ?thesis by simp
  next
    case False
    with Cons.prems have fresh: "p \<notin> fst ` set trs" by auto
    let ?v = "new_track p (int (length trs) + 1) (clk k)"
    let ?d = "d\<lparr>d_tracks := Some (trs @ [(p, ?v)])\<rparr>"
    have "add_new_tracks clk existing ps (?d, Suc k) =
       Inr (?d\<lparr>d_tracks := Some ((trs @ [(p, ?v)]) @
              fresh_entries clk (length (trs @ [(p, ?v)])) (Suc k) (filter (\<lambda>p. p \<notin> existing) ps))\<rparr>,
            Suc k + length (filter (\<lambda>p. p \<notin> existing) ps))"
      using Cons.prems by (intro Cons.IH) auto
    then show ?thesis
      using False Cons.prems(1) by (simp add: update_fresh_key[OF fresh])
  qed
qed

lemma add_new_tracks_no_tracks:
  assumes "d_tracks d = None"
  shows "add_new_tracks clk {} ps (d, k) = (if ps = [] then Inr (d, k) else Inl (KeyError ''tracks''))"
  using assms by (cases ps) simp_all

lemma add_new_tracks_all_known:
  "\<forall>p \<in> set ps. p \<in> existing \<Longrightarrow> add_new_tracks clk existing ps (d, k) = Inr (d, k)"
  by (induction ps) simp_all

lemma fold_delete_filter:
  "fold AList.delete rm trs = filter (\<lambda>(p, v). p \<notin> set rm) trs"
proof (induction rm arbitrary: trs)
  case Nil
  then show ?case by simp
next
  case (Cons r rm)
  have "filter (\<lambda>(p, v). p \<notin> set rm) (AList.delete r trs) = filter (\<lambda>(p, v). p \<notin> set (r # rm)) trs"
    by (induction trs) (auto simp: AList.delete_eq)
  with Cons show ?case by simp
qed

lemma filter_update_ignored:
  "(\<And>v'. \<not> P (k, v')) \<Longrightarrow> filter P (AList.update k v al) = filter P al"
  by (induction al) auto

lemma descriptor_not_audio: "lower (path_suffix descriptor_filename) \<notin> audio_extensions"
  by (simp add: descriptor_filename_def path_suffix_def path_name_def has_suffix_def
      after_last_dot_def lower_def lower_char_def audio_extensions_def)

lemma get_audio_files_after_save:
  "get_audio_files (Some (Folder (AList.update descriptor_filename (File c) f)))
   = get_audio_files (Some (Folder f))"
  using descriptor_not_audio
  by (simp add: get_audio_files_def entries_def filter_update_ignored)

lemma get_audio_files_distinct:
  "distinct (map fst (entries it)) \<Longrightarrow> distinct (get_audio_files it)"
  by (simp add: get_audio_files_def distinct_map_filter)

lemma save_descriptor_True:
  assumes "save_descriptor s name d = (True, s')"
  shows "\<exists>f. map_of (children s) name = Some (Folder f) \<and> writable s
     \<and> map_of f descriptor_filename \<noteq> Some Dir
     \<and> s' = s\<lparr>children := AList.update name
           (Folder (AList.update descriptor_filename (File (Json d)) f)) (children s)\<rparr>"
  using assms
  by (auto simp: save_descriptor_def write_file_def split: option.splits item.splits if_splits)

lemma load_after_save:
  assumes "save_descriptor s name d = (True, s')"
  shows "load_descriptor (map_of (children s') name) = Some d"
  using save_descriptor_True[OF assms]
  by (auto simp: AList.update_conv' load_descriptor_def entries_def)

lemma map_of_filter_key:
  "map_of (filter (\<lambda>(p, v). P p) al) k = (if P k then map_of al k else None)"
  by (induction al) auto


lemma load_or_default_tracks:
  assumes "load_or_default clk playlist_dir name = (d0, k0)"
  shows "(case d_tracks d0 of None \<Rightarrow> [] | Some trs \<Rightarrow> trs) =
     (case load_descriptor playlist_dir of
        None \<Rightarrow> []
      | Some d \<Rightarrow> (case d_tracks d of None \<Rightarrow> [] | Some trs \<Rightarrow> trs))"
  using assms
  by (auto simp: load_or_default_def default_descriptor_def truthy_def split: option.splits if_splits)

lemma refresh_success:
  assumes "map_of (children s) name = Some it"
    and "refresh_playlist clk s name = (Inr True, s')"
  shows "\<exists>d0 k0 d1 k1.
      load_or_default clk (Some it) name = (d0, k0)
    \<and> (case d_tracks d0 of None \<Rightarrow> [] | Some trs \<Rightarrow> trs) = persisted_tracks s name
    \<and> add_new_tracks clk (fst ` set (persisted_tracks s name)) (get_audio_files (Some it)) (d0, k0)
        = Inr (d1, k1)
    \<and> save_descriptor s name
         ((remove_tracks (filter (\<lambda>p. p \<notin> set (get_audio_files (Some it)))
                            (map fst (persisted_tracks s name))) d1)\<lparr>d_modified := Some (clk k1)\<rparr>)
        = (True, s')"
proof -
  obtain d0 k0 where i: "load_or_default clk (Some it) name = (d0, k0)"
    by (cases "load_or_default clk (Some it) name")
  have old: "(case d_tracks d0 of None \<Rightarrow> [] | Some trs \<Rightarrow> trs) = persisted_tracks s name"
    using load_or_default_tracks[OF i] by (simp add: persisted_tracks_def assms(1))
  have ex: "(case d_tracks d0 of None \<Rightarrow> [] | Some trs \<Rightarrow> map fst trs) = map fst (persisted_tracks s name)"
    using old by (auto split: option.splits)
  have ex': "set (map fst (persisted_tracks s name)) = fst ` set (persisted_tracks s name)"
    by simp
  show ?thesis
    using assms(2) old
    unfolding refresh_playlist_def Let_def assms(1) i prod.case ex ex'
    by (auto split: sum.splits prod.splits)
qed


lemma refresh_closed:
  assumes "map_of (children s) name = Some it"
    and "distinct (map fst (entries (Some it)))"
    and "refresh_playlist clk s name = (Inr True, s')"
  shows "\<exists>k0. persisted_tracks s' name =
      filter (\<lambda>(p, v). p \<in> set (get_audio_files (Some it))) (persisted_tracks s name)
      @ fresh_entries clk (length (persisted_tracks s name)) k0
          (filter (\<lambda>p. p \<notin> fst ` set (persisted_tracks s name)) (get_audio_files (Some it)))"
proof -
  let ?cur = "get_audio_files (Some it)"
  let ?old = "persisted_tracks s name"
  let ?rm = "filter (\<lambda>p. p \<notin> set ?cur) (map fst ?old)"
  from refresh_success[OF assms(1,3)] obtain d0 k0 d1 k1 where
    old: "(case d_tracks d0 of None \<Rightarrow> [] | Some trs \<Rightarrow> trs) = ?old"
    and add: "add_new_tracks clk (fst ` set ?old) ?cur (d0, k0) = Inr (d1, k1)"
    and save: "save_descriptor s name ((remove_tracks ?rm d1)\<lparr>d_modified := Some (clk k1)\<rparr>) = (True, s')"
    by blast
  have new: "persisted_tracks s' name = (case d_tracks (remove_tracks ?rm d1) of None \<Rightarrow> [] | Some trs \<Rightarrow> trs)"
    using load_after_save[OF save] by (simp add: persisted_tracks_def)
  show ?thesis
  proof (cases "d_tracks d0")
    case None
    with old have e: "?old = []" by simp
    from add None e have "?cur = [] \<and> d1 = d0"
      using add_new_tracks_no_tracks[of d0 clk ?cur k0] by (auto split: if_splits)
    with None e new show ?thesis by (simp add: remove_tracks_def)
  next
    case (Some trs)
    with old have e: "?old = trs" by simp
    let ?fresh = "fresh_entries clk (length trs) k0 (filter (\<lambda>p. p \<notin> fst ` set trs) ?cur)"
    have "add_new_tracks clk (fst ` set trs) ?cur (d0, k0) =
        Inr (d0\<lparr>d_tracks := Some (trs @ ?fresh)\<rparr>, k0 + length (filter (\<lambda>p. p \<notin> fst ` set trs) ?cur))"
      using Some get_audio_files_distinct[OF assms(2)] by (intro add_new_tracks_closed) auto
    with add e have d1: "d1 = d0\<lparr>d_tracks := Some (trs @ ?fresh)\<rparr>" by simp
    have kept: "filter (\<lambda>(p, v). p \<notin> set ?rm) trs = filter (\<lambda>(p, v). p \<in> set ?cur) trs"
      unfolding e by (rule filter_cong) force+
    have "\<forall>x \<in> set ?fresh. fst x \<in> set ?cur"
    proof
      fix x assume "x \<in> set ?fresh"
      then have "fst x \<in> set (map fst ?fresh)" by (simp del: fresh_entries_keys)
      then show "fst x \<in> set ?cur" by simp
    qed
    then have fresh: "filter (\<lambda>(p, v). p \<notin> set ?rm) ?fresh = ?fresh"
      by (auto simp: filter_id_conv)
    have "persisted_tracks s' name = filter (\<lambda>(p, v). p \<notin> set ?rm) (trs @ ?fresh)"
      using new d1 by (simp add: remove_tracks_def fold_delete_filter)
    then show ?thesis
      using kept fresh e by auto
  qed
qed

lemma gap_refresh:
  "refresh_playlist clock_a gap_catalog ''Rock'' =
     (Inr True, gap_catalog\<lparr>children := [(''Rock'', Folder
        [(''b.mp3'', File (Other ''audio'')),
         (''c.mp3'', File (Other ''audio'')),
         (''playlist.json'', File (Json (gap_descriptor\<lparr>d_modified := Some ''2024-01-02T09:00:00'',
            d_tracks := Some
              [(''b.mp3'', new_track ''b.mp3'' 3 ''2024-01-01T10:00:00''),
               (''c.mp3'', new_track ''c.mp3'' 3 ''2024-01-02T09:00:00'')]\<rparr>)))])]\<rparr>)"
  by code_simp

lemma audio_files_exist:
  "p \<in> set (get_audio_files dir) \<Longrightarrow> path_exists dir p"
proof -
  assume "p \<in> set (get_audio_files dir)"
  then have "p \<in> fst ` set (entries dir)"
    by (auto simp: get_audio_files_def)
  then show ?thesis
    by (simp add: path_exists_def map_of_eq_None_iff)
qed

text \<open>
  C2, as the code has it. The listing of a collection directory holds the paths below it,
  relative to it and distinct; the scan (\<open>_get_audio_files\<close>) finds the regular files among
  them that have an audio extension. When the directory exists and \<open>refresh_playlist\<close>
  returns \<open>True\<close>: the keys added are exactly the files the scan finds that were not keys;
  every entry whose key is a relative path with no file on disk is removed; every entry whose
  key is a file the scan finds stays, with all its fields; and the added entries, \<open>m\<close> of
  them, get the file's stem as display name and the orders \<open>n + 1\<close> to \<open>n + m\<close>, one each,
  where \<open>n\<close> is the number of entries before the call. Nothing is said of an entry whose
  file exists but is not found by the scan.
\<close>

theorem refresh_playlist_reconciles:
  assumes "map_of (children s) name = Some it"
    and "distinct (map fst (entries (Some it)))"
    and "\<forall>p \<in> fst ` set (entries (Some it)). relative_key p"
    and "refresh_playlist clk s name = (Inr True, s')"
  shows "fst ` set (persisted_tracks s' name) - fst ` set (persisted_tracks s name)
           = set (get_audio_files (Some it)) - fst ` set (persisted_tracks s name)
    \<and> (\<forall>p \<in> fst ` set (persisted_tracks s name).
          relative_key p \<and> \<not> path_exists (Some it) p \<longrightarrow> p \<notin> fst ` set (persisted_tracks s' name))
    \<and> (\<forall>p \<in> fst ` set (persisted_tracks s name) \<inter> set (get_audio_files (Some it)).
          map_of (persisted_tracks s' name) p = map_of (persisted_tracks s name) p)
    \<and> (\<exists>added. distinct added
          \<and> set added = set (get_audio_files (Some it)) - fst ` set (persisted_tracks s name)
          \<and> (\<forall>i < length added.
                \<exists>ts. map_of (persisted_tracks s' name) (added ! i)
                  = Some (new_track (added ! i) (int (length (persisted_tracks s name)) + int i + 1) ts)))"
proof -
  let ?cur = "get_audio_files (Some it)"
  let ?old = "persisted_tracks s name"
  let ?added = "filter (\<lambda>p. p \<notin> fst ` set ?old) ?cur"
  let ?kept = "filter (\<lambda>(p, v). p \<in> set ?cur) ?old"
  from refresh_closed[OF assms(1,2,4)] obtain k0 where
    new: "persisted_tracks s' name = ?kept @ fresh_entries clk (length ?old) k0 ?added"
    by blast
  have keys: "fst ` set (persisted_tracks s' name) = fst ` set ?kept \<union> set ?added"
  proof -
    have "set (map fst (persisted_tracks s' name)) = set (map fst ?kept) \<union> set ?added"
      unfolding new by simp
    then show ?thesis by simp
  qed
  have kk: "fst ` set ?kept = fst ` set ?old \<inter> set ?cur"
    by force
  have a: "fst ` set (persisted_tracks s' name) - fst ` set ?old = set ?cur - fst ` set ?old"
    unfolding keys kk by auto
  have b: "\<forall>p \<in> fst ` set ?old.
          relative_key p \<and> \<not> path_exists (Some it) p \<longrightarrow> p \<notin> fst ` set (persisted_tracks s' name)"
  proof (intro ballI impI)
    fix p assume "p \<in> fst ` set ?old" and "relative_key p \<and> \<not> path_exists (Some it) p"
    then have "p \<notin> set ?cur"
      using audio_files_exist[of p "Some it"] by blast
    then show "p \<notin> fst ` set (persisted_tracks s' name)"
      unfolding keys kk by simp
  qed
  have c: "\<forall>p \<in> fst ` set ?old \<inter> set ?cur. map_of (persisted_tracks s' name) p = map_of ?old p"
  proof
    fix p assume p: "p \<in> fst ` set ?old \<inter> set ?cur"
    then have "map_of ?kept p = map_of ?old p"
      by (simp add: map_of_filter_key)
    moreover from p have "map_of ?old p \<noteq> None"
      by (simp add: map_of_eq_None_iff)
    ultimately show "map_of (persisted_tracks s' name) p = map_of ?old p"
      unfolding new by (auto simp: map_add_def split: option.splits)
  qed
  have dist: "distinct ?added"
    using get_audio_files_distinct[OF assms(2)] by simp
  have d: "\<forall>i < length ?added. \<exists>ts. map_of (persisted_tracks s' name) (?added ! i)
       = Some (new_track (?added ! i) (int (length ?old) + int i + 1) ts)"
  proof (intro allI impI)
    fix i assume i: "i < length ?added"
    then have "?added ! i \<in> set ?added" by (rule nth_mem)
    then have "?added ! i \<notin> fst ` set ?old" by simp
    then have "map_of ?kept (?added ! i) = None"
      by (simp add: map_of_filter_key map_of_eq_None_iff)
    then have "map_of (persisted_tracks s' name) (?added ! i)
        = map_of (fresh_entries clk (length ?old) k0 ?added) (?added ! i)"
      unfolding new by (simp add: map_add_def)
    with fresh_entries_lookup[OF dist i, of clk "length ?old" k0]
    show "\<exists>ts. map_of (persisted_tracks s' name) (?added ! i)
       = Some (new_track (?added ! i) (int (length ?old) + int i + 1) ts)"
      by auto
  qed
  have e: "\<exists>added. distinct added \<and> set added = set ?cur - fst ` set ?old
          \<and> (\<forall>i < length added.
                \<exists>ts. map_of (persisted_tracks s' name) (added ! i)
                  = Some (new_track (added ! i) (int (length ?old) + int i + 1) ts))"
  proof (intro exI conjI)
    show "distinct ?added" by (rule dist)
    show "set ?added = set ?cur - fst ` set ?old" by auto
    show "\<forall>i < length ?added. \<exists>ts. map_of (persisted_tracks s' name) (?added ! i)
       = Some (new_track (?added ! i) (int (length ?old) + int i + 1) ts)" by (rule d)
  qed
  show ?thesis using a b c e by blast
qed

theorem refresh_playlist_reconciles_witness:
  "map_of (children gap_catalog) ''Rock'' = Some (Folder gap_folder)
   \<and> distinct (map fst (entries (Some (Folder gap_folder))))
   \<and> relative_key ''b.mp3'' \<and> relative_key ''c.mp3'' \<and> relative_key ''playlist.json''
   \<and> fst (refresh_playlist clock_a gap_catalog ''Rock'') = Inr True
   \<and> ''gone.mp3'' \<in> fst ` set (persisted_tracks gap_catalog ''Rock'')
   \<and> relative_key ''gone.mp3''
   \<and> \<not> path_exists (Some (Folder gap_folder)) ''gone.mp3''
   \<and> ''gone.mp3'' \<notin> fst ` set (persisted_tracks (snd (refresh_playlist clock_a gap_catalog ''Rock'')) ''Rock'')
   \<and> fst ` set (persisted_tracks (snd (refresh_playlist clock_a gap_catalog ''Rock'')) ''Rock'')
        - fst ` set (persisted_tracks gap_catalog ''Rock'')
      = set (get_audio_files (Some (Folder gap_folder))) - fst ` set (persisted_tracks gap_catalog ''Rock'')"
proof -
  have h1: "map_of (children gap_catalog) ''Rock'' = Some (Folder gap_folder)"
    by (simp add: gap_catalog_def)
  have h2: "distinct (map fst (entries (Some (Folder gap_folder))))"
    by (simp add: entries_def gap_folder_def)
  have r: "relative_key ''b.mp3''" "relative_key ''c.mp3''" "relative_key ''playlist.json''"
      "relative_key ''gone.mp3''"
    by (simp_all add: relative_key_def)
  then have h3: "\<forall>p \<in> fst ` set (entries (Some (Folder gap_folder))). relative_key p"
    by (simp add: entries_def gap_folder_def)
  have h4: "fst (refresh_playlist clock_a gap_catalog ''Rock'') = Inr True"
    unfolding gap_refresh by simp
  then have h4': "refresh_playlist clock_a gap_catalog ''Rock''
      = (Inr True, snd (refresh_playlist clock_a gap_catalog ''Rock''))"
    by (metis prod.collapse)
  have g: "''gone.mp3'' \<in> fst ` set (persisted_tracks gap_catalog ''Rock'')"
    by (simp add: persisted_tracks_def gap_catalog_def gap_folder_def gap_descriptor_def
        load_descriptor_def entries_def descriptor_filename_def)
  have n: "\<not> path_exists (Some (Folder gap_folder)) ''gone.mp3''"
    by (simp add: path_exists_def entries_def gap_folder_def)
  show ?thesis
    using refresh_playlist_reconciles [OF h1 h2 h3 h4'] h1 h2 r h4 g n by blast
qed

text \<open>
  A descriptor with the entries \<open>gone.mp3\<close> (order 1) and \<open>b.mp3\<close> (order 3), and the
  files \<open>b.mp3\<close> and \<open>c.mp3\<close> on disk: the new entry \<open>c.mp3\<close> gets the order 3, which
  \<open>b.mp3\<close> has and keeps.
\<close>

theorem refresh_order_counterexample:
  "fst (refresh_playlist clock_a gap_catalog ''Rock'') = Inr True
   \<and> map_of (persisted_tracks gap_catalog ''Rock'') ''b.mp3''
        = Some (new_track ''b.mp3'' 3 ''2024-01-01T10:00:00'')
   \<and> map_of (persisted_tracks gap_catalog ''Rock'') ''c.mp3'' = None
   \<and> map_of (persisted_tracks (snd (refresh_playlist clock_a gap_catalog ''Rock'')) ''Rock'') ''b.mp3''
        = Some (new_track ''b.mp3'' 3 ''2024-01-01T10:00:00'')
   \<and> map_of (persisted_tracks (snd (refresh_playlist clock_a gap_catalog ''Rock'')) ''Rock'') ''c.mp3''
        = Some (new_track ''c.mp3'' 3 ''2024-01-02T09:00:00'')"
  unfolding gap_refresh
  by (simp add: persisted_tracks_def gap_catalog_def gap_folder_def gap_descriptor_def
      load_descriptor_def entries_def descriptor_filename_def)

lemma add_new_tracks_keys:
  assumes "add_new_tracks clk existing ps (d, k) = Inr (d', k')"
  shows "(d_tracks d = None \<longrightarrow> d' = d \<and> set ps \<subseteq> existing)
    \<and> (\<forall>trs. d_tracks d = Some trs \<longrightarrow>
          (\<exists>trs'. d_tracks d' = Some trs' \<and> fst ` set trs' = fst ` set trs \<union> (set ps - existing)))"
  using assms
proof (induction ps arbitrary: d k)
  case Nil
  then show ?case by simp
next
  case (Cons p ps)
  show ?case
  proof (cases "p \<in> existing")
    case True
    with Cons.prems have "add_new_tracks clk existing ps (d, k) = Inr (d', k')" by simp
    from Cons.IH[OF this] True show ?thesis by auto
  next
    case False
    show ?thesis
    proof (cases "d_tracks d")
      case None
      with False Cons.prems show ?thesis by simp
    next
      case (Some trs)
      let ?t = "AList.update p (new_track p (int (length trs) + 1) (clk k)) trs"
      from False Some Cons.prems
      have "add_new_tracks clk existing ps (d\<lparr>d_tracks := Some ?t\<rparr>, Suc k) = Inr (d', k')"
        by simp
      from Cons.IH[OF this] obtain trs' where
        "d_tracks d' = Some trs'" and "fst ` set trs' = fst ` set ?t \<union> (set ps - existing)"
        by auto
      moreover have "fst ` set ?t = insert p (fst ` set trs)"
        by (simp add: AList.dom_update)
      ultimately show ?thesis using Some False by auto
    qed
  qed
qed

lemma remove_tracks_Nil: "remove_tracks [] d = d"
  by (cases "d_tracks d") (simp_all add: remove_tracks_def)

lemma remove_tracks_keys:
  "d_tracks d = Some trs \<Longrightarrow>
   \<exists>trs'. d_tracks (remove_tracks rm d) = Some trs' \<and> fst ` set trs' = fst ` set trs - set rm"
  by (force simp: remove_tracks_def fold_delete_filter)

lemma remove_tracks_None: "d_tracks d = None \<Longrightarrow> remove_tracks rm d = d"
  by (simp add: remove_tracks_def)

lemma refresh_unfold:
  assumes "map_of (children s) name = Some it"
    and "load_or_default clk (Some it) name = (d0, k0)"
    and "existing = (case d_tracks d0 of None \<Rightarrow> [] | Some trs \<Rightarrow> map fst trs)"
    and "add_new_tracks clk (set existing) (get_audio_files (Some it)) (d0, k0) = Inr (d1, k1)"
    and "save_descriptor s name
           ((remove_tracks (filter (\<lambda>p. p \<notin> set (get_audio_files (Some it))) existing) d1)
              \<lparr>d_modified := Some (clk k1)\<rparr>) = (ok, s')"
  shows "refresh_playlist clk s name = (Inr ok, s')"
  unfolding refresh_playlist_def Let_def assms(1) assms(2) prod.case assms(3)[symmetric] assms(4)
    sum.case assms(5)
  by simp

lemma rock_refresh:
  "refresh_playlist clock_a rock_catalog ''Rock'' =
     (Inr True, rock_catalog\<lparr>children := [(''Rock'', Folder
        [(''a.mp3'', File (Other ''audio'')),
         (''b.mp3'', File (Other ''audio'')),
         (''playlist.json'', File (Json (rock_descriptor\<lparr>d_modified := Some ''2024-01-02T09:00:00''\<rparr>)))])]\<rparr>)"
  by code_simp

lemma rock_refresh_again:
  "refresh_playlist clock_b (snd (refresh_playlist clock_a rock_catalog ''Rock'')) ''Rock'' =
     (Inr True, rock_catalog\<lparr>children := [(''Rock'', Folder
        [(''a.mp3'', File (Other ''audio'')),
         (''b.mp3'', File (Other ''audio'')),
         (''playlist.json'', File (Json (rock_descriptor\<lparr>d_modified := Some ''2024-01-02T09:00:05''\<rparr>)))])]\<rparr>)"
  by code_simp

text \<open>
  C1, as the code has it. After a \<open>refresh_playlist\<close> that returned \<open>True\<close>, a second one
  with nothing changed on disk returns \<open>True\<close> and does exactly one thing: it writes the
  descriptor again with \<open>modified\<close> set to the new time stamp. The tracks and every other
  field of the descriptor are the ones the first call left.
\<close>

theorem refresh_playlist_twice:
  assumes "refresh_playlist clk1 s name = (Inr True, s1)"
  shows "\<exists>d s2. load_descriptor (map_of (children s1) name) = Some d
     \<and> refresh_playlist clk2 s1 name = (Inr True, s2)
     \<and> write_file s1 name descriptor_filename (Json (d\<lparr>d_modified := Some (clk2 0)\<rparr>)) = Some s2"
proof -
  obtain it where it: "map_of (children s) name = Some it"
    using assms by (cases "map_of (children s) name") (auto simp: refresh_playlist_def)
  let ?cur = "get_audio_files (Some it)"
  let ?old = "persisted_tracks s name"
  let ?rm = "filter (\<lambda>p. p \<notin> set ?cur) (map fst ?old)"
  from refresh_success[OF it assms] obtain d0 k0 d1 k1 where
    old: "(case d_tracks d0 of None \<Rightarrow> [] | Some trs \<Rightarrow> trs) = ?old"
    and add: "add_new_tracks clk1 (fst ` set ?old) ?cur (d0, k0) = Inr (d1, k1)"
    and save: "save_descriptor s name ((remove_tracks ?rm d1)\<lparr>d_modified := Some (clk1 k1)\<rparr>) = (True, s1)"
    by blast
  define d where "d = (remove_tracks ?rm d1)\<lparr>d_modified := Some (clk1 k1)\<rparr>"
  from save_descriptor_True[OF save] obtain f where
    f: "map_of (children s) name = Some (Folder f)" and w: "writable s"
    and s1: "s1 = s\<lparr>children := AList.update name
           (Folder (AList.update descriptor_filename (File (Json d)) f)) (children s)\<rparr>"
    unfolding d_def by blast
  let ?f1 = "AList.update descriptor_filename (File (Json d)) f"
  have it1: "map_of (children s1) name = Some (Folder ?f1)"
    by (simp add: s1 AList.update_conv')
  have ld: "load_descriptor (map_of (children s1) name) = Some d"
    using load_after_save[OF save] by (simp add: d_def)
  have cur1: "get_audio_files (Some (Folder ?f1)) = ?cur"
    using it f by (simp add: get_audio_files_after_save)
  have truthy: "truthy d"
    by (simp add: d_def truthy_def)
  have lod: "load_or_default clk2 (Some (Folder ?f1)) name = (d, 0)"
    using ld truthy it1 by (simp add: load_or_default_def)
  define existing where "existing = (case d_tracks d of None \<Rightarrow> [] | Some trs \<Rightarrow> map fst trs)"
  have keys: "set existing = set ?cur"
  proof (cases "d_tracks d0")
    case None
    with old have "?old = []" by simp
    with add_new_tracks_keys[OF add] None have "d1 = d0" and "?cur = []" by auto
    with None show ?thesis by (simp add: existing_def d_def remove_tracks_None)
  next
    case (Some trs)
    with old have e: "?old = trs" by simp
    from add_new_tracks_keys[OF add] Some obtain trs1 where
      t1: "d_tracks d1 = Some trs1" and k1: "fst ` set trs1 = fst ` set trs \<union> (set ?cur - fst ` set trs)"
      unfolding e by auto
    from remove_tracks_keys[OF t1, of ?rm] obtain trs2 where
      t2: "d_tracks (remove_tracks ?rm d1) = Some trs2" and k2: "fst ` set trs2 = fst ` set trs1 - set ?rm"
      by auto
    have "fst ` set trs2 = set ?cur"
      unfolding k2 k1 e by auto
    with t2 show ?thesis by (simp add: existing_def d_def)
  qed
  have add2: "add_new_tracks clk2 (set existing) (get_audio_files (Some (Folder ?f1))) (d, 0) = Inr (d, 0)"
    unfolding cur1 by (rule add_new_tracks_all_known) (simp add: keys)
  have rm2: "filter (\<lambda>p. p \<notin> set (get_audio_files (Some (Folder ?f1)))) existing = []"
    unfolding cur1 using keys by (auto simp: filter_empty_conv)
  let ?d2 = "d\<lparr>d_modified := Some (clk2 0)\<rparr>"
  let ?s2 = "s1\<lparr>children := AList.update name
           (Folder (AList.update descriptor_filename (File (Json ?d2)) ?f1)) (children s1)\<rparr>"
  have wr: "write_file s1 name descriptor_filename (Json ?d2) = Some ?s2"
    using it1 w by (simp add: write_file_def s1 AList.update_conv')
  then have sv: "save_descriptor s1 name ((remove_tracks
       (filter (\<lambda>p. p \<notin> set (get_audio_files (Some (Folder ?f1)))) existing) d)\<lparr>d_modified := Some (clk2 0)\<rparr>)
       = (True, ?s2)"
    unfolding rm2 remove_tracks_Nil by (simp add: save_descriptor_def)
  have "refresh_playlist clk2 s1 name = (Inr True, ?s2)"
    by (rule refresh_unfold[OF it1 lod existing_def add2 sv])
  with ld wr show ?thesis by blast
qed


theorem refresh_playlist_twice_witness:
  "refresh_playlist clock_a rock_catalog ''Rock''
      = (Inr True, snd (refresh_playlist clock_a rock_catalog ''Rock''))
   \<and> (\<exists>d s2. load_descriptor (map_of (children (snd (refresh_playlist clock_a rock_catalog ''Rock''))) ''Rock'')
          = Some d
        \<and> refresh_playlist clock_b (snd (refresh_playlist clock_a rock_catalog ''Rock'')) ''Rock''
          = (Inr True, s2)
        \<and> write_file (snd (refresh_playlist clock_a rock_catalog ''Rock'')) ''Rock'' descriptor_filename
            (Json (d\<lparr>d_modified := Some (clock_b 0)\<rparr>)) = Some s2)"
proof -
  have h: "refresh_playlist clock_a rock_catalog ''Rock''
      = (Inr True, snd (refresh_playlist clock_a rock_catalog ''Rock''))"
    unfolding rock_refresh by simp
  show ?thesis
    using refresh_playlist_twice [OF h, of clock_b] h by blast
qed

text \<open>
  Two refreshes five seconds apart, nothing changed on disk in between: the descriptor the
  second one leaves differs from the one the first left, in \<open>modified\<close>.
\<close>

theorem refresh_twice_counterexample:
  "fst (refresh_playlist clock_a rock_catalog ''Rock'') = Inr True
   \<and> fst (refresh_playlist clock_b (snd (refresh_playlist clock_a rock_catalog ''Rock'')) ''Rock'') = Inr True
   \<and> load_descriptor (map_of (children (snd (refresh_playlist clock_a rock_catalog ''Rock''))) ''Rock'')
        = Some (rock_descriptor\<lparr>d_modified := Some ''2024-01-02T09:00:00''\<rparr>)
   \<and> load_descriptor (map_of (children
          (snd (refresh_playlist clock_b (snd (refresh_playlist clock_a rock_catalog ''Rock'')) ''Rock''))) ''Rock'')
        = Some (rock_descriptor\<lparr>d_modified := Some ''2024-01-02T09:00:05''\<rparr>)
   \<and> rock_descriptor\<lparr>d_modified := Some ''2024-01-02T09:00:05''\<rparr>
        \<noteq> rock_descriptor\<lparr>d_modified := Some ''2024-01-02T09:00:00''\<rparr>"
proof -
  have "d_modified (rock_descriptor\<lparr>d_modified := Some ''2024-01-02T09:00:05''\<rparr>)
      \<noteq> d_modified (rock_descriptor\<lparr>d_modified := Some ''2024-01-02T09:00:00''\<rparr>)"
    by simp
  then have ne: "rock_descriptor\<lparr>d_modified := Some ''2024-01-02T09:00:05''\<rparr>
        \<noteq> rock_descriptor\<lparr>d_modified := Some ''2024-01-02T09:00:00''\<rparr>"
    by metis
  show ?thesis
    unfolding rock_refresh_again unfolding rock_refresh
    using ne
    by (simp add: load_descriptor_def entries_def descriptor_filename_def)
qed

section \<open>Reordering a collection\<close>

lemma last_pos_None: "last_pos i ids p = None \<longleftrightarrow> p \<notin> set ids"
proof (induction ids arbitrary: i)
  case Nil
  then show ?case by simp
next
  case (Cons q qs)
  show ?case
  proof (cases "last_pos (Suc i) qs p")
    case None
    with Cons.IH[of "Suc i"] show ?thesis by auto
  next
    case (Some j)
    with Cons.IH[of "Suc i"] show ?thesis by auto
  qed
qed

lemma last_pos_Some:
  "last_pos i ids p = Some j \<Longrightarrow>
     i \<le> j \<and> j < i + length ids \<and> ids ! (j - i) = p \<and> p \<notin> set (drop (Suc (j - i)) ids)"
proof (induction ids arbitrary: i)
  case Nil
  then show ?case by simp
next
  case (Cons q qs)
  show ?case
  proof (cases "last_pos (Suc i) qs p")
    case None
    with Cons.prems have "q = p" and "j = i" by (auto split: if_splits)
    with None show ?thesis by (simp add: last_pos_None)
  next
    case (Some j')
    with Cons.prems have j: "j' = j" by simp
    from Cons.IH[OF Some[unfolded j]] have
      "Suc i \<le> j" "j < Suc i + length qs" "qs ! (j - Suc i) = p" "p \<notin> set (drop (Suc (j - Suc i)) qs)"
      by auto
    moreover from \<open>Suc i \<le> j\<close> have "j - i = Suc (j - Suc i)" by simp
    ultimately show ?thesis by simp
  qed
qed

lemma last_pos_at:
  "k < length ids \<Longrightarrow> ids ! k \<notin> set (drop (Suc k) ids) \<Longrightarrow> last_pos i ids (ids ! k) = Some (i + k)"
proof (induction ids arbitrary: i k)
  case Nil
  then show ?case by simp
next
  case (Cons q qs)
  show ?case
  proof (cases k)
    case 0
    with Cons.prems have "q \<notin> set qs" by simp
    then have "last_pos (Suc i) qs q = None" by (simp add: last_pos_None)
    with 0 show ?thesis by simp
  next
    case (Suc k')
    with Cons.prems have "last_pos (Suc i) qs (qs ! k') = Some (Suc i + k')"
      by (intro Cons.IH) simp_all
    with Suc show ?thesis by simp
  qed
qed

lemma last_pos_inj:
  "last_pos i ids p = Some j \<Longrightarrow> last_pos i ids q = Some j \<Longrightarrow> p = q"
  using last_pos_Some by blast

lemma last_pos_remdups:
  "sorted_wrt (<) (map (\<lambda>p. the (last_pos i ids p)) (remdups ids))"
proof (induction ids arbitrary: i)
  case Nil
  then show ?case by simp
next
  case (Cons q qs)
  have tail: "\<forall>p \<in> set qs. last_pos i (q # qs) p = last_pos (Suc i) qs p"
    by (auto simp: last_pos_None split: option.splits)
  then have eq: "map (\<lambda>p. the (last_pos i (q # qs) p)) (remdups qs)
      = map (\<lambda>p. the (last_pos (Suc i) qs p)) (remdups qs)"
    by (simp del: last_pos.simps)
  show ?case
  proof (cases "q \<in> set qs")
    case True
    then have r: "remdups (q # qs) = remdups qs" by simp
    show ?thesis unfolding r eq by (rule Cons.IH)
  next
    case False
    then have r: "remdups (q # qs) = q # remdups qs" by simp
    from False have h: "the (last_pos i (q # qs) q) = i"
      by (simp add: last_pos_None[THEN iffD2])
    have "\<forall>p \<in> set qs. i < the (last_pos (Suc i) qs p)"
    proof
      fix p assume "p \<in> set qs"
      then obtain j where "last_pos (Suc i) qs p = Some j"
        using last_pos_None[of "Suc i" qs p] by auto
      with last_pos_Some[OF this] show "i < the (last_pos (Suc i) qs p)" by simp
    qed
    then have "\<forall>x \<in> set (map (\<lambda>p. the (last_pos (Suc i) qs p)) (remdups qs)). i < x"
      by simp
    with Cons.IH[of "Suc i"] show ?thesis
      unfolding r list.map h eq sorted_wrt.simps by blast
  qed
qed

lemma set_orders_keys: "map fst (set_orders i ids trs) = map fst trs"
proof (induction ids arbitrary: i trs)
  case Nil
  then show ?case by simp
next
  case (Cons q qs)
  show ?case
  proof (cases "map_of trs q")
    case None
    with Cons.IH show ?thesis by simp
  next
    case (Some ti)
    then have "q \<in> set (map fst trs)"
      by (metis map_of_eq_None_iff option.distinct(1) set_map)
    with Some Cons.IH show ?thesis by (simp add: AList.update_keys)
  qed
qed

lemma set_orders_lookup:
  "map_of (set_orders i ids trs) p =
     (case map_of trs p of
        None \<Rightarrow> None
      | Some ti \<Rightarrow>
          Some (case last_pos i ids p of None \<Rightarrow> ti | Some j \<Rightarrow> ti\<lparr>ti_order := Some (int j)\<rparr>))"
proof (induction ids arbitrary: i trs)
  case Nil
  then show ?case by (simp split: option.splits)
next
  case (Cons q qs)
  show ?case
  proof (cases "map_of trs q")
    case None
    then have "q \<noteq> p \<or> map_of trs p = None" by auto
    with None Cons.IH[of "Suc i" trs] show ?thesis
      by (auto split: option.splits)
  next
    case (Some ti)
    show ?thesis
      using Some Cons.IH[of "Suc i" "AList.update q (ti\<lparr>ti_order := Some (int i)\<rparr>) trs"]
      by (auto simp: AList.update_conv' split: option.splits)
  qed
qed


lemma reorder_success:
  assumes "reorder_tracks clk s name ids = (True, s')"
  shows "\<exists>d trs. load_descriptor (map_of (children s) name) = Some d \<and> d_tracks d = Some trs
     \<and> save_descriptor s name
          (d\<lparr>d_tracks := Some (set_orders 1 ids trs), d_modified := Some (clk 0)\<rparr>) = (True, s')"
  using assms by (auto simp: reorder_tracks_def Let_def split: option.splits)

lemma last_pos_key_inj: "inj_on (\<lambda>p. int (the (last_pos i ids p))) (set ids)"
proof (rule inj_onI)
  fix p q assume p: "p \<in> set ids" and q: "q \<in> set ids"
    and e: "int (the (last_pos i ids p)) = int (the (last_pos i ids q))"
  from p obtain j where j: "last_pos i ids p = Some j"
    using last_pos_None[of i ids p] by auto
  from q obtain j' where j': "last_pos i ids q = Some j'"
    using last_pos_None[of i ids q] by auto
  from e j j' have "j = j'" by simp
  with j j' show "p = q" using last_pos_inj by blast
qed

lemma same_keys_same_list:
  fixes g :: "'a \<Rightarrow> int"
  assumes "set xs = set ys" and "distinct xs" and "distinct ys"
    and "inj_on g (set xs)" and "sorted (map g xs)" and "sorted (map g ys)"
  shows "xs = ys"
proof -
  have "distinct (map g xs)" "distinct (map g ys)"
    using assms by (simp_all add: distinct_map)
  moreover have "set (map g xs) = set (map g ys)"
    using assms(1) by simp
  ultimately have "map g xs = map g ys"
    using assms(5,6) by (intro sorted_distinct_set_unique)
  moreover have "inj_on g (set xs \<union> set ys)"
    using assms(1,4) by simp
  ultimately show ?thesis
    by (simp add: inj_on_map_eq_map)
qed

lemma rock_reorder:
  "reorder_tracks clock_a rock_catalog ''Rock'' [''b.mp3'', ''a.mp3''] =
     (True, rock_catalog\<lparr>children := [(''Rock'', Folder
        [(''a.mp3'', File (Other ''audio'')),
         (''b.mp3'', File (Other ''audio'')),
         (''playlist.json'', File (Json (rock_descriptor\<lparr>d_modified := Some ''2024-01-02T09:00:00'',
            d_tracks := Some
              [(''a.mp3'', \<lparr>ti_display_name = Some ''Alpha'', ti_order = Some 2,
                      ti_added = Some ''2024-01-01T10:00:00'', ti_modified = None\<rparr>),
               (''b.mp3'', \<lparr>ti_display_name = Some ''Beta'', ti_order = Some 1,
                      ti_added = Some ''2024-01-01T10:00:00'', ti_modified = None\<rparr>)]\<rparr>)))])]\<rparr>)"
  by code_simp

lemma rock_reordered_tracks:
  "fst (get_playlist_tracks (snd (reorder_tracks clock_a rock_catalog ''Rock'' [''b.mp3'', ''a.mp3''])) ''Rock'')
     = [''b.mp3'', ''a.mp3'']"
  by code_simp

text \<open>
  C4. When \<open>reorder_tracks\<close> returns \<open>True\<close> (the descriptor loads, has tracks and is
  written): the keys of the descriptor and their sequence are unchanged; the entry of the
  path at index \<open>k\<close> of the list gets the order \<open>k + 1\<close> and keeps its other fields (for
  a path given more than once, \<open>k\<close> is its last index); the entry of a path that is not in
  the list is unchanged; and in the result of \<open>get_playlist_tracks\<close> afterwards the paths of
  the list come in the order of the list (of their last occurrences, when a path is given
  more than once). The keys of a loaded JSON object are distinct.
\<close>

theorem reorder_tracks_orders:
  assumes "reorder_tracks clk s name ids = (True, s')"
    and "distinct (map fst (persisted_tracks s name))"
  shows "map fst (persisted_tracks s' name) = map fst (persisted_tracks s name)
    \<and> (\<forall>k < length ids. ids ! k \<notin> set (drop (Suc k) ids) \<longrightarrow>
          map_of (persisted_tracks s' name) (ids ! k)
            = map_option (\<lambda>ti. ti\<lparr>ti_order := Some (int k + 1)\<rparr>)
                (map_of (persisted_tracks s name) (ids ! k)))
    \<and> (\<forall>p. p \<notin> set ids \<longrightarrow> map_of (persisted_tracks s' name) p = map_of (persisted_tracks s name) p)
    \<and> filter (\<lambda>p. p \<in> set ids) (fst (get_playlist_tracks s' name))
        = filter (\<lambda>p. p \<in> set (fst (get_playlist_tracks s' name))) (remdups ids)
    \<and> (distinct ids \<longrightarrow>
          filter (\<lambda>p. p \<in> set ids) (fst (get_playlist_tracks s' name))
            = filter (\<lambda>p. p \<in> set (fst (get_playlist_tracks s' name))) ids)"
proof -
  from reorder_success[OF assms(1)] obtain d trs where
    ld: "load_descriptor (map_of (children s) name) = Some d" and tr: "d_tracks d = Some trs"
    and save: "save_descriptor s name
          (d\<lparr>d_tracks := Some (set_orders 1 ids trs), d_modified := Some (clk 0)\<rparr>) = (True, s')"
    by blast
  let ?new = "set_orders 1 ids trs"
  let ?d' = "d\<lparr>d_tracks := Some ?new, d_modified := Some (clk 0)\<rparr>"
  have old: "persisted_tracks s name = trs"
    using ld tr by (simp add: persisted_tracks_def)
  have ld': "load_descriptor (map_of (children s') name) = Some ?d'"
    by (rule load_after_save[OF save])
  then have new: "persisted_tracks s' name = ?new"
    by (simp add: persisted_tracks_def)
  have a: "map fst (persisted_tracks s' name) = map fst (persisted_tracks s name)"
    unfolding new old by (rule set_orders_keys)
  have b: "\<forall>k < length ids. ids ! k \<notin> set (drop (Suc k) ids) \<longrightarrow>
          map_of (persisted_tracks s' name) (ids ! k)
            = map_option (\<lambda>ti. ti\<lparr>ti_order := Some (int k + 1)\<rparr>)
                (map_of (persisted_tracks s name) (ids ! k))"
  proof (intro allI impI)
    fix k assume k: "k < length ids" and l: "ids ! k \<notin> set (drop (Suc k) ids)"
    have "last_pos 1 ids (ids ! k) = Some (1 + k)"
      by (rule last_pos_at[OF k l])
    then show "map_of (persisted_tracks s' name) (ids ! k)
            = map_option (\<lambda>ti. ti\<lparr>ti_order := Some (int k + 1)\<rparr>)
                (map_of (persisted_tracks s name) (ids ! k))"
      unfolding new old by (simp add: set_orders_lookup add.commute split: option.splits)
  qed
  have c: "\<forall>p. p \<notin> set ids \<longrightarrow> map_of (persisted_tracks s' name) p = map_of (persisted_tracks s name) p"
    unfolding new old
    by (simp add: set_orders_lookup last_pos_None[THEN iffD2] split: option.splits)
  from save_descriptor_True[OF save] obtain f' where it': "map_of (children s') name = Some (Folder f')"
    by (auto simp: AList.update_conv')
  have dn: "distinct (map fst ?new)"
    using assms(2) by (simp add: set_orders_keys old)
  let ?res = "fst (get_playlist_tracks s' name)"
  have tn: "d_tracks ?d' = Some ?new"
    by simp
  note lst = tracks_listing[OF it' ld'[unfolded it'] tn dn]
  let ?g = "\<lambda>p. int (the (last_pos 1 ids p))"
  let ?L = "filter (\<lambda>p. p \<in> set ids) ?res"
  let ?R = "filter (\<lambda>p. p \<in> set ?res) (remdups ids)"
  have key: "order_of ?new p = ?g p" if "p \<in> set ids" and "p \<in> fst ` set ?new" for p
  proof -
    from that(1) obtain j where j: "last_pos 1 ids p = Some j"
      using last_pos_None[of 1 ids p] by auto
    from that(2) obtain ti where "map_of trs p = Some ti"
      using set_orders_keys[of 1 ids trs]
      by (metis map_of_eq_None_iff not_None_eq set_map)
    with j show ?thesis
      by (simp add: order_of_def set_orders_lookup get_order_def)
  qed
  have sL: "sorted (map ?g ?L)"
  proof -
    have m: "map (order_of ?new) ?L = map ?g ?L"
      using lst(1) key by (auto simp del: last_pos.simps)
    have "sorted (map (order_of ?new) ?L)"
      using lst(3) by (rule sorted_filter)
    then show ?thesis unfolding m .
  qed
  have sR: "sorted (map ?g ?R)"
  proof -
    have "sorted_wrt (\<lambda>a b. the (last_pos 1 ids a) < the (last_pos 1 ids b)) (remdups ids)"
      using last_pos_remdups[of 1 ids] by (simp add: sorted_wrt_map)
    then have "sorted_wrt (\<lambda>a b. the (last_pos 1 ids a) < the (last_pos 1 ids b)) ?R"
      by (rule sorted_wrt_filter)
    then have "sorted_wrt (\<lambda>a b. ?g a \<le> ?g b) ?R"
      by (rule sorted_wrt_mono_rel[rotated]) simp
    then show ?thesis by (simp add: sorted_wrt_map)
  qed
  have inj: "inj_on ?g (set ?L)"
    by (rule inj_on_subset[OF last_pos_key_inj]) auto
  have e: "?L = ?R"
    by (rule same_keys_same_list[OF _ _ _ inj sL sR]) (use lst(2) in auto)
  have f: "distinct ids \<longrightarrow> ?L = filter (\<lambda>p. p \<in> set ?res) ids"
    using e by (simp add: distinct_remdups_id)
  show ?thesis using a b c e f by blast
qed


theorem reorder_tracks_orders_witness:
  "reorder_tracks clock_a rock_catalog ''Rock'' [''b.mp3'', ''a.mp3'']
     = (True, snd (reorder_tracks clock_a rock_catalog ''Rock'' [''b.mp3'', ''a.mp3'']))
   \<and> distinct (map fst (persisted_tracks rock_catalog ''Rock''))
   \<and> distinct [''b.mp3'', ''a.mp3'']
   \<and> fst (get_playlist_tracks (snd (reorder_tracks clock_a rock_catalog ''Rock'' [''b.mp3'', ''a.mp3''])) ''Rock'')
       = [''b.mp3'', ''a.mp3'']
   \<and> map fst (persisted_tracks (snd (reorder_tracks clock_a rock_catalog ''Rock'' [''b.mp3'', ''a.mp3''])) ''Rock'')
       = map fst (persisted_tracks rock_catalog ''Rock'')"
proof -
  have h1: "reorder_tracks clock_a rock_catalog ''Rock'' [''b.mp3'', ''a.mp3'']
     = (True, snd (reorder_tracks clock_a rock_catalog ''Rock'' [''b.mp3'', ''a.mp3'']))"
    unfolding rock_reorder by simp
  have h2: "distinct (map fst (persisted_tracks rock_catalog ''Rock''))"
    by (simp add: persisted_tracks_def rock_catalog_def load_descriptor_def entries_def
        descriptor_filename_def rock_descriptor_def)
  have h3: "distinct [''b.mp3'', ''a.mp3'']"
    by simp
  show ?thesis
    using reorder_tracks_orders [OF h1 h2] h1 h2 h3 rock_reordered_tracks by blast
qed

end
